theory Spec2Isabelle
  imports Main "HOL-Library.Sublist"
begin

section \<open>Strings\<close>

text \<open>
  A Python \<open>str\<close> is a sequence of Unicode code points. The converter distinguishes
  code points beyond one byte (the dash U+2013 written by \<open>clean_text\<close>, the box-drawing
  character U+2500 of the horizontal rule), so a string is a list of code points, each
  a natural number. \<open>lit\<close> reads an ASCII literal.
\<close>

type_synonym pystr = "nat list"

definition lit :: "string \<Rightarrow> pystr" where
  "lit cs = map of_char cs"

text \<open>
  The white space of \<open>str.strip()\<close> and of \<open>\s\<close> in a \<open>str\<close> pattern of \<open>re\<close>: both
  test \<open>Py_UNICODE_ISSPACE\<close>, the code points below.
\<close>

definition is_space :: "nat \<Rightarrow> bool" where
  "is_space c \<longleftrightarrow>
     (9 \<le> c \<and> c \<le> 13) \<or> (28 \<le> c \<and> c \<le> 32) \<or> c = 133 \<or> c = 160 \<or> c = 5760 \<or>
     (8192 \<le> c \<and> c \<le> 8202) \<or> c = 8232 \<or> c = 8233 \<or> c = 8239 \<or> c = 8287 \<or>
     c = 12288"

definition strip :: "pystr \<Rightarrow> pystr" where
  "strip s = rev (dropWhile is_space (rev (dropWhile is_space s)))"

text \<open>
  \<open>s.replace(old, new)\<close>: the occurrences of \<open>old\<close> are found from the left and do not
  overlap. With an empty \<open>old\<close>, Python puts \<open>new\<close> before every character and at the end.
\<close>

function replace :: "pystr \<Rightarrow> pystr \<Rightarrow> pystr \<Rightarrow> pystr" where
  "replace [] old new = (if old = [] then new else [])"
| "replace (c # cs) old new =
     (if old = [] then new @ c # replace cs old new
      else if take (length old) (c # cs) = old
        then new @ replace (drop (length old) (c # cs)) old new
      else c # replace cs old new)"
  by pat_completeness auto
termination
  by (relation "measure (\<lambda>(s, old, new). length s)") auto

section \<open>The two regular-expression substitutions of \<open>clean_text\<close>\<close>

text \<open>
  \<open>re.sub(r'\s+', ' ', text)\<close>: scanning from the left, each maximal run of white space
  becomes one space.
\<close>

function sub_spaces :: "pystr \<Rightarrow> pystr" where
  "sub_spaces [] = []"
| "sub_spaces (c # cs) =
     (if is_space c then 32 # sub_spaces (dropWhile is_space cs) else c # sub_spaces cs)"
  by pat_completeness auto
termination
  by (relation "measure length") (auto simp: length_dropWhile_le less_Suc_eq_le)

text \<open>
  \<open>re.sub(r'\n\s*\n', '\n', text)\<close>. \<open>match_blank\<close> is the backtracking match of
  \<open>\s*\n\<close> at the start of a string: the greedy star first takes the character when it
  is white space, and gives it back when the rest then fails; the result is the text
  after the match. \<open>sub_blank\<close> scans from the left: a match starts at a newline, is
  replaced by one newline, and the scan goes on after it.
\<close>

fun match_blank :: "pystr \<Rightarrow> pystr option" where
  "match_blank [] = None"
| "match_blank (c # cs) =
     (case (if is_space c then match_blank cs else None) of
        Some r \<Rightarrow> Some r
      | None \<Rightarrow> if c = 10 then Some cs else None)"

lemma match_blank_length: "match_blank cs = Some r \<Longrightarrow> length r < length cs"
  by (induction cs arbitrary: r) (auto split: option.splits if_splits)

function sub_blank :: "pystr \<Rightarrow> pystr" where
  "sub_blank [] = []"
| "sub_blank (c # cs) =
     (if c = 10 then
        (case match_blank cs of
           Some r \<Rightarrow> 10 # sub_blank r
         | None \<Rightarrow> c # sub_blank cs)
      else c # sub_blank cs)"
  by pat_completeness auto
termination
  by (relation "measure length") (auto dest: match_blank_length)

section \<open>Text Normalizer: \<open>clean_text\<close>\<close>

text \<open>
  The source, line by line. Line 40 replaces the straight double quote by itself, twice.
  Line 41 reads \<open>text.replace(''', "'").replace(''', "'")\<close>: Python's lexer takes the
  first \<open>'''\<close> as the start of a triple-quoted string, which ends at the next \<open>'''\<close>, so
  the line is one call, \<open>text.replace(S, "'")\<close>, where \<open>S\<close> is the fifteen characters
  \<open>, "'").replace(\<close>. Line 43 replaces \<open>--\<close> by the code point U+2013 (8211, the en
  dash); the em dash is U+2014 (8212).
\<close>

definition quote_pattern :: pystr where
  "quote_pattern = [44, 32, 34, 39, 34, 41, 46, 114, 101, 112, 108, 97, 99, 101, 40]"

definition en_dash :: nat where
  "en_dash = 8211"

definition em_dash :: nat where
  "em_dash = 8212"

definition normalize_dashes :: "pystr \<Rightarrow> pystr" where
  "normalize_dashes text = replace text (lit ''--'') [en_dash]"

definition clean_text :: "pystr \<Rightarrow> pystr" where
  "clean_text text0 =
     (let text1 = sub_spaces text0;
          text2 = strip text1;
          text3 = replace (replace text2 [34] [34]) [34] [34];
          text4 = replace text3 quote_pattern [39];
          text5 = normalize_dashes text4;
          text6 = sub_blank text5
      in text6)"

text \<open>
  The text \<open>, ", "'").replace(").replace(\<close>: the fifteen characters of line 41 stand in
  it once, between \<open>, "\<close> and \<open>").replace(\<close>.
\<close>

definition nested_quote_text :: pystr where
  "nested_quote_text =
     [44, 32, 34] @ quote_pattern @ [34, 41, 46, 114, 101, 112, 108, 97, 99, 101, 40]"

text \<open>
  Read from the specification, for comparison with line 43: every occurrence of the two
  characters \<open>--\<close>, found from the left, becomes the single character \<open>d\<close>.
\<close>

fun replace_pairs :: "nat \<Rightarrow> pystr \<Rightarrow> pystr" where
  "replace_pairs d (a # b # cs) =
     (if a = 45 \<and> b = 45 then d # replace_pairs d cs else a # replace_pairs d (b # cs))"
| "replace_pairs d cs = cs"

text \<open>\<open>twice c s\<close>: the character \<open>c\<close> stands twice in a row somewhere in \<open>s\<close>.\<close>

fun twice :: "nat \<Rightarrow> pystr \<Rightarrow> bool" where
  "twice c (a # b # cs) = ((a = c \<and> b = c) \<or> twice c (b # cs))"
| "twice c cs = False"

section \<open>The parsed markup tree and the output document\<close>

text \<open>
  The tree that \<open>BeautifulSoup(html, 'html.parser')\<close> hands over: a text node
  (\<open>NavigableString\<close>, whose \<open>name\<close> is \<open>None\<close>) or a tag with its name and children.
  \<open>get_text\<close> of a tag is the concatenation of the text nodes below it, and
  \<open>find_all(name, recursive=False)\<close> keeps the direct children that are tags of that name.
\<close>

datatype node = Text pystr | Tag pystr "node list"

fun get_text :: "node \<Rightarrow> pystr" where
  "get_text (Text s) = s"
| "get_text (Tag name children) = concat (map get_text children)"

fun is_tag :: "pystr \<Rightarrow> node \<Rightarrow> bool" where
  "is_tag name (Text s) = False"
| "is_tag name (Tag n children) = (n = name)"

definition find_all :: "pystr \<Rightarrow> node list \<Rightarrow> node list" where
  "find_all name children = filter (is_tag name) children"

text \<open>
  A document of \<open>python-docx\<close> is the list of its paragraphs. A paragraph has a style
  (\<open>None\<close>: the default style), its runs, and its paragraph format; a run has its text and
  font overrides. Lengths are in English Metric Units, \<open>Pt(n)\<close> being \<open>12700 * n\<close>.
\<close>

record run =
  rtext :: pystr
  italic :: "bool option"
  font_name :: "pystr option"
  font_size :: "nat option"

record docx_paragraph =
  style :: "pystr option"
  runs :: "run list"
  left_indent :: "nat option"
  right_indent :: "nat option"
  alignment :: "nat option"

type_synonym document = "docx_paragraph list"

definition Pt :: "nat \<Rightarrow> nat" where
  "Pt points = points * 12700"

definition new_run :: "pystr \<Rightarrow> run" where
  "new_run t = \<lparr>rtext = t, italic = None, font_name = None, font_size = None\<rparr>"

text \<open>
  The paragraph that \<open>doc.add_paragraph(text)\<close> creates: it holds one run with the text
  when the text is not empty, and no run otherwise.
\<close>

definition add_paragraph :: "pystr \<Rightarrow> docx_paragraph" where
  "add_paragraph t =
     \<lparr>style = None, runs = (if t = [] then [] else [new_run t]),
      left_indent = None, right_indent = None, alignment = None\<rparr>"

section \<open>Block Mapper: \<open>process_html_to_docx\<close>\<close>

text \<open>The loop over the direct \<open>li\<close> children of a list (lines 83 to 89).\<close>

fun add_list_items :: "pystr \<Rightarrow> node list \<Rightarrow> document \<Rightarrow> document" where
  "add_list_items name [] doc = doc"
| "add_list_items name (li # lis) doc =
     (let t = clean_text (get_text li) in
      add_list_items name lis
        (if t \<noteq> [] then
           doc @ [(add_paragraph t)
                    \<lparr>style := Some (if name = lit ''ul'' then lit ''List Bullet''
                                    else lit ''List Number''),
                     left_indent := Some (Pt 36)\<rparr>]
         else doc))"

text \<open>
  The body of the loop (lines 58 to 117), for one top-level node. The heading level is
  the digit after the \<open>h\<close>; alignment \<open>1\<close> is \<open>CENTER\<close>; the rule is thirty times the
  code point U+2500 (9472).
\<close>

definition process_element :: "node \<Rightarrow> document \<Rightarrow> document" where
  "process_element element doc =
     (case element of
        Text s \<Rightarrow>
          if strip s = [] then doc
          else (let t = clean_text s in
                if t \<noteq> [] then doc @ [(add_paragraph t)\<lparr>style := Some (lit ''Normal'')\<rparr>]
                else doc)
      | Tag name children \<Rightarrow>
          if name \<in> set [lit ''h1'', lit ''h2'', lit ''h3'', lit ''h4'', lit ''h5'', lit ''h6''] then
            (let level = name ! 1 - 48; t = clean_text (get_text element) in
             if t \<noteq> [] then
               doc @ [(add_paragraph t)\<lparr>style := Some (lit ''Heading '' @ [48 + level])\<rparr>]
             else doc)
          else if name = lit ''p'' then
            (let t = clean_text (get_text element) in
             if t \<noteq> [] then doc @ [(add_paragraph t)\<lparr>style := Some (lit ''Normal'')\<rparr>]
             else doc)
          else if name \<in> set [lit ''ul'', lit ''ol''] then
            add_list_items name (find_all (lit ''li'') children) doc
          else if name = lit ''blockquote'' then
            (let t = clean_text (get_text element) in
             if t \<noteq> [] then
               (let p = (add_paragraph t)
                          \<lparr>style := Some (lit ''Quote''), left_indent := Some (Pt 48)\<rparr>
                in doc @ [p\<lparr>runs := map (\<lambda>r. r\<lparr>italic := Some True\<rparr>) (runs p)\<rparr>])
             else doc)
          else if name = lit ''pre'' then
            (let t = clean_text (get_text element) in
             if t \<noteq> [] then
               doc @ [(add_paragraph [])
                        \<lparr>style := Some (lit ''No Spacing''),
                         runs := [(new_run t)\<lparr>font_name := Some (lit ''Courier New''),
                                               font_size := Some (Pt 10)\<rparr>],
                         left_indent := Some (Pt 36), right_indent := Some (Pt 36)\<rparr>]
             else doc)
          else if name = lit ''hr'' then
            doc @ [(add_paragraph [])
                     \<lparr>alignment := Some 1,
                      runs := [(new_run (replicate 30 9472))\<lparr>font_size := Some (Pt 12)\<rparr>]\<rparr>]
          else doc)"

fun process_html_to_docx :: "node list \<Rightarrow> document \<Rightarrow> document" where
  "process_html_to_docx [] doc = doc"
| "process_html_to_docx (element # rest) doc =
     process_html_to_docx rest (process_element element doc)"

text \<open>
  The text a node is read for: a text node's own string, a tag's \<open>get_text()\<close>.
\<close>

definition is_list :: "node \<Rightarrow> bool" where
  "is_list element = (is_tag (lit ''ul'') element \<or> is_tag (lit ''ol'') element)"

fun direct_items :: "node \<Rightarrow> node list" where
  "direct_items (Text s) = []"
| "direct_items (Tag name children) = find_all (lit ''li'') children"

section \<open>Paths: the functions of \<open>os.path\<close> on a POSIX system\<close>

text \<open>
  \<open>rfind s c\<close> is \<open>s.rfind(c)\<close> for a single character: the last index of \<open>c\<close>, or \<open>-1\<close>.
  \<open>basename\<close>, \<open>dirname\<close>, \<open>join\<close> (of two parts) and \<open>splitext\<close> follow \<open>posixpath\<close>: the
  separator is \<open>/\<close> (47), the extension starts at the last dot (46) of the last
  component, unless only dots stand before it there.
\<close>

definition rfind :: "pystr \<Rightarrow> nat \<Rightarrow> int" where
  "rfind s c = int (length (dropWhile (\<lambda>x. x \<noteq> c) (rev s))) - 1"

definition basename :: "pystr \<Rightarrow> pystr" where
  "basename p = drop (nat (rfind p 47 + 1)) p"

definition dirname :: "pystr \<Rightarrow> pystr" where
  "dirname p =
     (let head = take (nat (rfind p 47 + 1)) p in
      if head \<noteq> [] \<and> head \<noteq> replicate (length head) 47
      then rev (dropWhile (\<lambda>x. x = 47) (rev head)) else head)"

definition join :: "pystr \<Rightarrow> pystr \<Rightarrow> pystr" where
  "join a b =
     (if take 1 b = [47] then b
      else if a = [] \<or> last a = 47 then a @ b
      else a @ [47] @ b)"

definition splitext :: "pystr \<Rightarrow> pystr \<times> pystr" where
  "splitext p =
     (let sepIndex = rfind p 47; dotIndex = rfind p 46 in
      if dotIndex > sepIndex \<and>
         list_ex (\<lambda>x. x \<noteq> 46) (take (nat (dotIndex - (sepIndex + 1))) (drop (nat (sepIndex + 1)) p))
      then (take (nat dotIndex) p, drop (nat dotIndex) p)
      else (p, []))"

text \<open>
  \<open>filename.lower().endswith('.md')\<close>. \<open>lower\<close> is \<open>str.lower\<close> on the ASCII letters; no
  code point outside ASCII has a lower case that ends in \<open>.\<close>, \<open>m\<close> or \<open>d\<close>, so the test
  below is Python's on every name.
\<close>

definition lower :: "pystr \<Rightarrow> pystr" where
  "lower s = map (\<lambda>c. if 65 \<le> c \<and> c \<le> 90 then c + 32 else c) s"

definition endswith :: "pystr \<Rightarrow> pystr \<Rightarrow> bool" where
  "endswith s suf = (length suf \<le> length s \<and> drop (length s - length suf) s = suf)"

definition is_md :: "pystr \<Rightarrow> bool" where
  "is_md filename = endswith (lower filename) (lit ''.md'')"

text \<open>\<open>str(n)\<close> of a count: its decimal digits.\<close>

fun str_int :: "nat \<Rightarrow> pystr" where
  "str_int n = (if n < 10 then [48 + n] else str_int (n div 10) @ [48 + n mod 10])"

section \<open>The platform: exceptions, the file system and the collaborators\<close>

text \<open>
  An exception is caught by \<open>except (IOError, OSError)\<close> exactly when its class is
  \<open>OSError\<close> (\<open>IOError\<close> is the same class) or one below it, such as
  \<open>FileNotFoundError\<close>, \<open>PermissionError\<close> or \<open>IsADirectoryError\<close>. The
  \<open>UnicodeDecodeError\<close> that \<open>f.read()\<close> raises on bytes that are not UTF-8 is a
  \<open>ValueError\<close>, not an \<open>OSError\<close>; every exception of yet another class is an
  \<open>OtherError\<close>. Each carries \<open>str(e)\<close>.

  What the operating system and the libraries do is a parameter: reading a file as UTF-8
  text, \<open>markdown.markdown\<close> followed by the HTML parse, \<open>os.path.isdir\<close>,
  \<open>os.makedirs(..., exist_ok=True)\<close>, the document's \<open>save\<close>, and \<open>os.listdir\<close>, over a
  state of the file system \<open>'w\<close>. The operations that write return the exception they
  raise, if any, and the state they leave. \<open>document_error\<close> is the exception that
  \<open>Document()\<close> raises, if any, and \<open>run_text_error\<close> the exception that \<open>python-docx\<close>
  raises when a run is given a text it cannot store (through \<open>lxml\<close>, a \<open>ValueError\<close> for
  a text with a NULL byte or a control character), or \<open>None\<close> when it takes the text.
\<close>

datatype exn = OSError pystr | UnicodeDecodeError pystr | OtherError pystr

record 'w platform =
  read_text :: "pystr \<Rightarrow> 'w \<Rightarrow> exn + pystr"
  markdown_soup :: "pystr \<Rightarrow> exn + node list"
  isdir :: "pystr \<Rightarrow> 'w \<Rightarrow> bool"
  makedirs :: "pystr \<Rightarrow> 'w \<Rightarrow> exn option \<times> 'w"
  save :: "document \<Rightarrow> pystr \<Rightarrow> 'w \<Rightarrow> exn option \<times> 'w"
  listdir :: "pystr \<Rightarrow> 'w \<Rightarrow> exn + pystr list"
  document_error :: "exn option"
  run_text_error :: "pystr \<Rightarrow> exn option"

record 'w state =
  world :: 'w
  stdout :: "pystr list"

definition py_print :: "pystr \<Rightarrow> 'w state \<Rightarrow> 'w state" where
  "py_print line st = st\<lparr>stdout := stdout st @ [line]\<rparr>"

section \<open>File Converter: \<open>convert_md_to_docx\<close>\<close>

text \<open>Lines 146 to 157: the output path.\<close>

definition output_file_of :: "'w platform \<Rightarrow> 'w \<Rightarrow> pystr \<Rightarrow> pystr option \<Rightarrow> pystr" where
  "output_file_of P w input_file output_path =
     (case output_path of
        None \<Rightarrow> fst (splitext input_file) @ lit ''.docx''
      | Some path \<Rightarrow>
          if isdir P path w then
            (let input_filename = basename input_file;
                 output_filename = fst (splitext input_filename) @ lit ''.docx''
             in join path output_filename)
          else path)"

text \<open>Lines 159 to 162: the directory of the output file is created when it has one.\<close>

definition ensure_output_dir :: "'w platform \<Rightarrow> pystr \<Rightarrow> 'w \<Rightarrow> exn option \<times> 'w" where
  "ensure_output_dir P output_file w =
     (let output_dir = dirname output_file in
      if output_dir \<noteq> [] then makedirs P output_dir w else (None, w))"

definition success_line :: "pystr \<Rightarrow> pystr \<Rightarrow> pystr" where
  "success_line input_file output_file =
     lit ''Successfully converted '' @ input_file @ lit '' to '' @ output_file"

definition error_line :: "pystr \<Rightarrow> pystr \<Rightarrow> pystr" where
  "error_line input_file msg = lit ''Error processing file '' @ input_file @ lit '': '' @ msg"

text \<open>
  Lines 140 to 144: the document is created and the Block Mapper fills it. \<open>Document()\<close>
  may raise. Every paragraph the Block Mapper appends gets its text in one run;
  \<open>python-docx\<close> raises at the first text it cannot store, and the document built so far,
  local to the call, is lost. When nothing is raised, the document is the one
  \<open>process_html_to_docx\<close> gives from the empty document.
\<close>

definition run_texts :: "document \<Rightarrow> pystr list" where
  "run_texts doc = concat (map (\<lambda>p. map rtext (runs p)) doc)"

fun first_error :: "(pystr \<Rightarrow> exn option) \<Rightarrow> pystr list \<Rightarrow> exn option" where
  "first_error check [] = None"
| "first_error check (t # ts) =
     (case check t of Some e \<Rightarrow> Some e | None \<Rightarrow> first_error check ts)"

definition build_document :: "'w platform \<Rightarrow> node list \<Rightarrow> exn + document" where
  "build_document P soup =
     (case document_error P of
        Some e \<Rightarrow> Inl e
      | None \<Rightarrow>
          (let doc = process_html_to_docx soup [] in
           case first_error (run_text_error P) (run_texts doc) of
             Some e \<Rightarrow> Inl e
           | None \<Rightarrow> Inr doc))"

text \<open>
  The body of the \<open>try\<close> (lines 132 to 167): the exception that leaves it, or \<open>None\<close> when
  it reaches \<open>return True\<close>, and the state then.
\<close>

definition convert_body ::
  "'w platform \<Rightarrow> pystr \<Rightarrow> pystr option \<Rightarrow> 'w state \<Rightarrow> exn option \<times> 'w state" where
  "convert_body P input_file output_path st =
     (case read_text P input_file (world st) of
        Inl e \<Rightarrow> (Some e, st)
      | Inr md_content \<Rightarrow>
          (case markdown_soup P md_content of
             Inl e \<Rightarrow> (Some e, st)
           | Inr soup \<Rightarrow>
               (case build_document P soup of
                  Inl e \<Rightarrow> (Some e, st)
                | Inr doc \<Rightarrow>
                    (let output_file = output_file_of P (world st) input_file output_path
                     in case ensure_output_dir P output_file (world st) of
                          (Some e, w1) \<Rightarrow> (Some e, st\<lparr>world := w1\<rparr>)
                        | (None, w1) \<Rightarrow>
                            (case save P doc output_file w1 of
                               (Some e, w2) \<Rightarrow> (Some e, st\<lparr>world := w2\<rparr>)
                             | (None, w2) \<Rightarrow>
                                 (None, py_print (success_line input_file output_file)
                                          (st\<lparr>world := w2\<rparr>)))))))"

text \<open>
  The \<open>except (IOError, OSError) as e\<close> clause (lines 168 to 170), for an exception that
  leaves the body: an \<open>OSError\<close> is reported and the function returns \<open>False\<close>; any
  other exception is not caught and leaves the function. A result is \<open>Inr b\<close> when the
  function returns \<open>b\<close>, and \<open>Inl e\<close> when the exception \<open>e\<close> leaves it.
\<close>

definition except_clause :: "pystr \<Rightarrow> exn \<Rightarrow> 'w state \<Rightarrow> (exn + bool) \<times> 'w state" where
  "except_clause input_file e st =
     (case e of
        OSError msg \<Rightarrow> (Inr False, py_print (error_line input_file msg) st)
      | UnicodeDecodeError msg \<Rightarrow> (Inl e, st)
      | OtherError msg \<Rightarrow> (Inl e, st))"

definition convert_md_to_docx ::
  "'w platform \<Rightarrow> pystr \<Rightarrow> pystr option \<Rightarrow> 'w state \<Rightarrow> (exn + bool) \<times> 'w state" where
  "convert_md_to_docx P input_file output_path st =
     (case convert_body P input_file output_path st of
        (None, st') \<Rightarrow> (Inr True, st')
      | (Some e, st') \<Rightarrow> except_clause input_file e st')"

section \<open>Batch Converter: \<open>convert_directory\<close>\<close>

text \<open>
  The loop of lines 193 to 199 over the listing, with the two counters; an exception
  that leaves \<open>convert_md_to_docx\<close> leaves the loop.
\<close>

fun convert_files ::
  "'w platform \<Rightarrow> pystr \<Rightarrow> pystr option \<Rightarrow> pystr list \<Rightarrow> nat \<times> nat \<Rightarrow> 'w state \<Rightarrow>
   (exn + nat \<times> nat) \<times> 'w state" where
  "convert_files P directory_path output_path [] counts st = (Inr counts, st)"
| "convert_files P directory_path output_path (filename # rest) (success_count, failure_count) st =
     (if is_md filename then
        (let input_file = join directory_path filename in
         case convert_md_to_docx P input_file output_path st of
           (Inl e, st') \<Rightarrow> (Inl e, st')
         | (Inr ok, st') \<Rightarrow>
             if ok then
               convert_files P directory_path output_path rest (success_count + 1, failure_count) st'
             else
               convert_files P directory_path output_path rest (success_count, failure_count + 1) st')
      else convert_files P directory_path output_path rest (success_count, failure_count) st)"

definition summary :: "nat \<Rightarrow> nat \<Rightarrow> pystr list" where
  "summary success_count failure_count =
     [10 # lit ''Conversion complete!'',
      lit ''Successfully converted: '' @ str_int success_count @ lit '' files'',
      lit ''Failed conversions: '' @ str_int failure_count @ lit '' files'']"

text \<open>
  Lines 185 to 187: \<open>if output_path:\<close> holds for a path that is given and not empty.
\<close>

definition prepare_output_dir :: "'w platform \<Rightarrow> pystr option \<Rightarrow> 'w \<Rightarrow> exn option \<times> 'w" where
  "prepare_output_dir P output_path w =
     (case output_path of
        None \<Rightarrow> (None, w)
      | Some path \<Rightarrow> if path \<noteq> [] then makedirs P path w else (None, w))"

text \<open>
  The whole function (lines 181 to 203): \<open>None\<close> when it returns, the exception that
  leaves it otherwise; nothing in it catches an exception.
\<close>

definition convert_directory ::
  "'w platform \<Rightarrow> pystr \<Rightarrow> pystr option \<Rightarrow> 'w state \<Rightarrow> exn option \<times> 'w state" where
  "convert_directory P directory_path output_path st =
     (if \<not> isdir P directory_path (world st) then
        (None, py_print (lit ''Error: '' @ directory_path @ lit '' is not a directory'') st)
      else
        (case prepare_output_dir P output_path (world st) of
           (Some e, w1) \<Rightarrow> (Some e, st\<lparr>world := w1\<rparr>)
         | (None, w1) \<Rightarrow>
             (case listdir P directory_path w1 of
                Inl e \<Rightarrow> (Some e, st\<lparr>world := w1\<rparr>)
              | Inr filenames \<Rightarrow>
                  (case convert_files P directory_path output_path filenames (0, 0)
                          (st\<lparr>world := w1\<rparr>) of
                     (Inl e, st') \<Rightarrow> (Some e, st')
                   | (Inr (success_count, failure_count), st') \<Rightarrow>
                       (None, st'\<lparr>stdout := stdout st' @ summary success_count failure_count\<rparr>)))))"

text \<open>
  Read from the specification, for comparison with the loop: the File Converter is
  invoked once for each name of the list, in order, a \<open>true\<close> adding to the first counter
  and a \<open>false\<close> to the second.
\<close>

fun convert_each ::
  "'w platform \<Rightarrow> pystr \<Rightarrow> pystr option \<Rightarrow> pystr list \<Rightarrow> nat \<times> nat \<Rightarrow> 'w state \<Rightarrow>
   (exn + nat \<times> nat) \<times> 'w state" where
  "convert_each P directory_path output_path [] counts st = (Inr counts, st)"
| "convert_each P directory_path output_path (filename # rest) (s, f) st =
     (case convert_md_to_docx P (join directory_path filename) output_path st of
        (Inl e, st') \<Rightarrow> (Inl e, st')
      | (Inr ok, st') \<Rightarrow>
          convert_each P directory_path output_path rest (if ok then (s + 1, f) else (s, f + 1)) st')"

section \<open>A small platform\<close>

text \<open>
  A file system for concrete runs: a path is a directory, a text file, or a file whose
  bytes are not UTF-8. Opening a missing path or a directory for reading raises an
  \<open>OSError\<close> (\<open>FileNotFoundError\<close>, \<open>IsADirectoryError\<close>); decoding fails with a
  \<open>UnicodeDecodeError\<close>, which is not one. The stand-in for the Markdown and HTML
  collaborators reads the whole text as one \<open>p\<close> element, a run takes every text but one
  with a control character other than tab, newline and carriage return, and a saved
  document is kept as the text of its runs.
\<close>

datatype entry = Dir | File pystr | Undecodable

type_synonym fs = "(pystr \<times> entry) list"

definition fs_read_text :: "pystr \<Rightarrow> fs \<Rightarrow> exn + pystr" where
  "fs_read_text path w =
     (case map_of w path of
        None \<Rightarrow> Inl (OSError (lit ''No such file or directory''))
      | Some Dir \<Rightarrow> Inl (OSError (lit ''Is a directory''))
      | Some (File content) \<Rightarrow> Inr content
      | Some Undecodable \<Rightarrow> Inl (UnicodeDecodeError (lit ''invalid start byte'')))"

definition fs_isdir :: "pystr \<Rightarrow> fs \<Rightarrow> bool" where
  "fs_isdir path w = (map_of w path = Some Dir)"

definition fs_makedirs :: "pystr \<Rightarrow> fs \<Rightarrow> exn option \<times> fs" where
  "fs_makedirs path w =
     (case map_of w path of
        None \<Rightarrow> (None, (path, Dir) # w)
      | Some Dir \<Rightarrow> (None, w)
      | Some other \<Rightarrow> (Some (OSError (lit ''File exists'')), w))"

definition fs_save :: "document \<Rightarrow> pystr \<Rightarrow> fs \<Rightarrow> exn option \<times> fs" where
  "fs_save doc path w =
     (if map_of w path = Some Dir then (Some (OSError (lit ''Is a directory'')), w)
      else (None, (path, File (concat (map (\<lambda>p. concat (map rtext (runs p))) doc))) # w))"

definition fs_listdir :: "pystr \<Rightarrow> fs \<Rightarrow> exn + pystr list" where
  "fs_listdir path w =
     (if fs_isdir path w
      then Inr (map basename (filter (\<lambda>k. dirname k = path \<and> basename k \<noteq> []) (map fst w)))
      else Inl (OSError (lit ''Not a directory'')))"

definition xml_text_error :: "pystr \<Rightarrow> exn option" where
  "xml_text_error t =
     (if list_ex (\<lambda>c. c < 32 \<and> c \<noteq> 9 \<and> c \<noteq> 10 \<and> c \<noteq> 13) t
      then Some (OtherError (lit ''All strings must be XML compatible''))
      else None)"

definition fs_platform :: "fs platform" where
  "fs_platform =
     \<lparr>read_text = fs_read_text,
      markdown_soup = (\<lambda>md. Inr [Tag (lit ''p'') [Text md]]),
      isdir = fs_isdir, makedirs = fs_makedirs, save = fs_save, listdir = fs_listdir,
      document_error = None, run_text_error = xml_text_error\<rparr>"

text \<open>
  Three directories: \<open>D\<close> holds the file \<open>a.md\<close>, the subdirectory \<open>x.md\<close> and the file
  \<open>notes.txt\<close>; \<open>B\<close> holds the file \<open>c.MD\<close>, which is not UTF-8, and the file \<open>e.md\<close>;
  \<open>O\<close> is empty.
\<close>

definition fs0 :: fs where
  "fs0 =
     [(lit ''D'', Dir), (lit ''D/a.md'', File (lit ''Some  text'')), (lit ''D/x.md'', Dir),
      (lit ''D/notes.txt'', File (lit ''plain'')),
      (lit ''B'', Dir), (lit ''B/c.MD'', Undecodable), (lit ''B/e.md'', File (lit ''late'')),
      (lit ''O'', Dir)]"

definition st0 :: "fs state" where
  "st0 = \<lparr>world = fs0, stdout = []\<rparr>"

section \<open>Lemmas on strings\<close>

lemma twice_sublist: "twice c s \<longleftrightarrow> sublist [c, c] s"
  by (induction c s rule: twice.induct) (auto simp: sublist_Cons_right)

lemma twice_Cons: "twice c (a # r) \<longleftrightarrow> (r \<noteq> [] \<and> a = c \<and> hd r = c) \<or> twice c r"
  by (cases r) auto

lemma twice_append:
  "twice c (xs @ ys) \<longleftrightarrow>
     twice c xs \<or> twice c ys \<or> (xs \<noteq> [] \<and> ys \<noteq> [] \<and> last xs = c \<and> hd ys = c)"
proof (induction xs)
  case Nil
  show ?case by simp
next
  case (Cons x xs)
  show ?case
  proof (cases xs)
    case Nil
    then show ?thesis by (auto simp: twice_Cons)
  next
    case (Cons y zs)
    then show ?thesis using Cons.IH by auto
  qed
qed

lemma twice_drop: "twice c (drop n s) \<Longrightarrow> twice c s"
proof -
  assume "twice c (drop n s)"
  then have "twice c (take n s @ drop n s)"
    unfolding twice_append by (rule disjI2[OF disjI1])
  then show ?thesis by simp
qed

lemma is_space_32: "is_space 32"
  by (simp add: is_space_def)

lemma is_space_10: "is_space 10"
  by (simp add: is_space_def)

subsection \<open>The white-space substitution and \<open>strip\<close>\<close>

lemma sub_spaces_hd:
  "sub_spaces s = x # xs \<Longrightarrow> s \<noteq> [] \<and> (if is_space (hd s) then x = 32 else x = hd s)"
  by (cases s) (auto split: if_splits)

lemma sub_spaces_only_32: "c \<in> set (sub_spaces s) \<Longrightarrow> is_space c \<Longrightarrow> c = 32"
  by (induction s rule: sub_spaces.induct) (auto split: if_splits)

lemma sub_spaces_no_double: "\<not> twice 32 (sub_spaces s)"
proof (induction s rule: sub_spaces.induct)
  case 1
  show ?case by simp
next
  case (2 c cs)
  show ?case
  proof (cases "is_space c")
    case True
    let ?r = "dropWhile is_space cs"
    have ih: "\<not> twice 32 (sub_spaces ?r)" using 2(1) True by simp
    show ?thesis
    proof (cases "sub_spaces ?r")
      case Nil
      then show ?thesis using True by simp
    next
      case (Cons x xs)
      from sub_spaces_hd[OF Cons] have ne: "?r \<noteq> []"
        and hx: "if is_space (hd ?r) then x = 32 else x = hd ?r"
        by auto
      from ne have "\<not> is_space (hd ?r)" by (rule hd_dropWhile)
      with hx have "x = hd ?r" "\<not> is_space x" by auto
      then have "x \<noteq> 32" using is_space_32 by auto
      then show ?thesis using True ih Cons by simp
    qed
  next
    case False
    then have ih: "\<not> twice 32 (sub_spaces cs)" using 2(2) by simp
    have "c \<noteq> 32" using False is_space_32 by auto
    then show ?thesis using False ih by (cases "sub_spaces cs") auto
  qed
qed

lemma rstrip_split: "rev (dropWhile P (rev t)) @ rev (takeWhile P (rev t)) = t"
  by (metis rev_append rev_rev_ident takeWhile_dropWhile_id)

lemma strip_sublist: "sublist (strip s) s"
proof -
  let ?t = "dropWhile is_space s"
  have 1: "s = takeWhile is_space s @ ?t" by simp
  have 2: "?t = strip s @ rev (takeWhile is_space (rev ?t))"
    unfolding strip_def by (rule rstrip_split[symmetric])
  have "s = takeWhile is_space s @ strip s @ rev (takeWhile is_space (rev ?t))"
    using 1 2 by metis
  then show ?thesis unfolding sublist_def by blast
qed

lemma strip_hd: "strip s \<noteq> [] \<Longrightarrow> \<not> is_space (hd (strip s))"
proof -
  assume ne: "strip s \<noteq> []"
  let ?t = "dropWhile is_space s"
  let ?u = "dropWhile is_space (rev ?t)"
  have une: "?u \<noteq> []" using ne unfolding strip_def rev_is_Nil_conv .
  have tne: "?t \<noteq> []"
  proof
    assume "?t = []"
    then have "?u = []" by (metis dropWhile.simps(1) rev.simps(1))
    with une show False by (rule notE)
  qed
  have "?t = rev ?u @ rev (takeWhile is_space (rev ?t))"
    by (rule rstrip_split[symmetric])
  then have "hd ?t = hd (rev ?u)" using une by (metis hd_append2 rev_is_Nil_conv)
  moreover have "\<not> is_space (hd ?t)" using tne by (rule hd_dropWhile)
  ultimately show ?thesis by (simp add: strip_def)
qed

lemma strip_last: "strip s \<noteq> [] \<Longrightarrow> \<not> is_space (last (strip s))"
proof -
  assume ne: "strip s \<noteq> []"
  let ?u = "dropWhile is_space (rev (dropWhile is_space s))"
  have une: "?u \<noteq> []" using ne unfolding strip_def rev_is_Nil_conv .
  then have "\<not> is_space (hd ?u)" by (rule hd_dropWhile)
  then show ?thesis using une by (simp add: strip_def last_rev)
qed

lemma dropWhile_all: "list_all P s \<Longrightarrow> dropWhile P s = []"
  by (induction s) simp_all

lemma strip_all_space: "list_all is_space s \<Longrightarrow> strip s = []"
proof -
  assume "list_all is_space s"
  then have d: "dropWhile is_space s = []" by (rule dropWhile_all)
  show ?thesis unfolding strip_def by (simp add: d)
qed

subsection \<open>\<open>replace\<close>\<close>

lemma replace_Nil_iff:
  "old \<noteq> [] \<Longrightarrow> new \<noteq> [] \<Longrightarrow> replace s old new = [] \<longleftrightarrow> s = []"
  by (cases s) auto

lemma replace_set: "old \<noteq> [] \<Longrightarrow> set (replace s old new) \<subseteq> set s \<union> set new"
proof (induction s old new rule: replace.induct)
  case (1 old new)
  then show ?case by simp
next
  case (2 c cs old new)
  show ?case
  proof (cases "take (length old) (c # cs) = old")
    case True
    have "set (replace (drop (length old) (c # cs)) old new)
            \<subseteq> set (drop (length old) (c # cs)) \<union> set new"
      using 2 True by simp
    moreover have "set (drop (length old) (c # cs)) \<subseteq> set (c # cs)" by (rule set_drop_subset)
    ultimately show ?thesis using True 2(4) by auto
  next
    case False
    then show ?thesis using 2 by auto
  qed
qed

lemma replace_hd:
  "old \<noteq> [] \<Longrightarrow> new \<noteq> [] \<Longrightarrow> s \<noteq> [] \<Longrightarrow>
   hd (replace s old new) = hd s \<or> hd (replace s old new) = hd new"
  by (cases s) auto

lemma replace_last:
  "old \<noteq> [] \<Longrightarrow> new \<noteq> [] \<Longrightarrow> s \<noteq> [] \<Longrightarrow>
   last (replace s old new) = last s \<or> last (replace s old new) = last new"
proof (induction s old new rule: replace.induct)
  case (1 old new)
  then show ?case by simp
next
  case (2 c cs old new)
  show ?case
  proof (cases "take (length old) (c # cs) = old")
    case True
    let ?d = "drop (length old) (c # cs)"
    have unf: "replace (c # cs) old new = new @ replace ?d old new"
      using True 2(4) by simp
    show ?thesis
    proof (cases "?d = []")
      case dn: True
      have "replace ?d old new = []" unfolding dn using 2(4) by simp
      then show ?thesis unfolding unf by simp
    next
      case dn: False
      then have "last (replace ?d old new) = last ?d \<or> last (replace ?d old new) = last new"
        using 2 True by simp
      moreover have "replace ?d old new \<noteq> []" using dn 2(4,5) by (simp add: replace_Nil_iff)
      moreover have "last ?d = last (c # cs)" using dn by (simp del: drop_Suc_Cons)
      ultimately show ?thesis unfolding unf by simp
    qed
  next
    case False
    show ?thesis
    proof (cases "cs = []")
      case True
      then show ?thesis using False 2(4) by simp
    next
      case cn: False
      then have "last (replace cs old new) = last cs \<or> last (replace cs old new) = last new"
        using 2 False by simp
      moreover have "replace cs old new \<noteq> []" using cn 2(4,5) by (simp add: replace_Nil_iff)
      ultimately show ?thesis using False 2(4) cn by simp
    qed
  qed
qed

lemma replace_no_twice:
  "old \<noteq> [] \<Longrightarrow> new \<noteq> [] \<Longrightarrow> hd new \<noteq> x \<Longrightarrow> last new \<noteq> x \<Longrightarrow> \<not> twice x new \<Longrightarrow>
   \<not> twice x s \<Longrightarrow> \<not> twice x (replace s old new)"
proof (induction s old new rule: replace.induct)
  case (1 old new)
  then show ?case by simp
next
  case (2 c cs old new)
  show ?case
  proof (cases "take (length old) (c # cs) = old")
    case True
    let ?d = "drop (length old) (c # cs)"
    have "\<not> twice x ?d" using 2(9) twice_drop by blast
    then have "\<not> twice x (replace ?d old new)" using 2 True by simp
    then have "\<not> twice x (new @ replace ?d old new)"
      using 2(7,8) by (simp add: twice_append)
    then show ?thesis using True 2(4) by simp
  next
    case False
    have nd: "\<not> twice x cs" using 2(9) by (simp add: twice_Cons)
    then have ih: "\<not> twice x (replace cs old new)" using 2 False by simp
    show ?thesis
    proof (cases "cs = []")
      case True
      then show ?thesis using False 2(4) by simp
    next
      case cn: False
      have "hd (replace cs old new) = hd cs \<or> hd (replace cs old new) = hd new"
        using 2(4,5) cn by (rule replace_hd)
      moreover have "\<not> (c = x \<and> hd cs = x)" using 2(9) cn by (simp add: twice_Cons)
      ultimately have "\<not> (c = x \<and> hd (replace cs old new) = x)" using 2(6) by auto
      then show ?thesis using False 2(4) ih by (simp add: twice_Cons)
    qed
  qed
qed

lemma replace_same: "replace s [c] [c] = s"
  by (induction s) auto

lemma sub_blank_id: "10 \<notin> set s \<Longrightarrow> sub_blank s = s"
  by (induction s) auto

subsection \<open>The steps of \<open>clean_text\<close>\<close>

lemma quote_pattern_facts:
  "quote_pattern \<noteq> []" "10 \<notin> set quote_pattern"
  by (simp_all add: quote_pattern_def)

lemma lit_dashes: "lit ''--'' = [45, 45]"
  by (simp add: lit_def)

lemma trimmed_no_newline: "10 \<notin> set (strip (sub_spaces x))"
proof
  assume "10 \<in> set (strip (sub_spaces x))"
  then have "10 \<in> set (sub_spaces x)"
    using strip_sublist set_mono_sublist by blast
  then have "(10::nat) = 32" using is_space_10 by (rule sub_spaces_only_32)
  then show False by simp
qed

lemma clean_text_steps:
  "clean_text x =
     normalize_dashes (replace (strip (sub_spaces x)) quote_pattern [39])"
proof -
  let ?t2 = "strip (sub_spaces x)"
  let ?t4 = "replace ?t2 quote_pattern [39]"
  have "set ?t4 \<subseteq> set ?t2 \<union> set [39]"
    using quote_pattern_facts(1) by (rule replace_set)
  then have t4: "10 \<notin> set ?t4" using trimmed_no_newline[of x] by auto
  have "set (normalize_dashes ?t4) \<subseteq> set ?t4 \<union> set [en_dash]"
    unfolding normalize_dashes_def lit_dashes by (rule replace_set) simp
  then have "10 \<notin> set (normalize_dashes ?t4)" using t4 by (auto simp: en_dash_def)
  then have "sub_blank (normalize_dashes ?t4) = normalize_dashes ?t4" by (rule sub_blank_id)
  then show ?thesis by (simp add: clean_text_def Let_def replace_same)
qed

lemma clean_text_Nil_iff: "clean_text x = [] \<longleftrightarrow> strip (sub_spaces x) = []"
  unfolding clean_text_steps normalize_dashes_def lit_dashes
  by (simp add: replace_Nil_iff quote_pattern_facts)

lemma clean_text_no_double_space: "\<not> twice 32 (clean_text x)"
proof -
  let ?t2 = "strip (sub_spaces x)"
  let ?t4 = "replace ?t2 quote_pattern [39]"
  have "\<not> sublist [32, 32] (sub_spaces x)"
    using sub_spaces_no_double[of x] by (simp add: twice_sublist)
  then have "\<not> sublist [32, 32] ?t2"
    using strip_sublist sublist_order.order_trans by blast
  then have a: "\<not> twice 32 ?t2" by (simp add: twice_sublist)
  have b: "\<not> twice 32 ?t4"
    by (rule replace_no_twice[OF _ _ _ _ _ a]) (simp_all add: quote_pattern_facts)
  have "\<not> twice 32 (replace ?t4 [45, 45] [en_dash])"
    by (rule replace_no_twice[OF _ _ _ _ _ b]) (simp_all add: en_dash_def)
  then show ?thesis unfolding clean_text_steps normalize_dashes_def lit_dashes .
qed

lemma clean_text_ends:
  assumes "clean_text x \<noteq> []"
  shows "\<not> is_space (hd (clean_text x))" and "\<not> is_space (last (clean_text x))"
proof -
  let ?t2 = "strip (sub_spaces x)"
  let ?t4 = "replace ?t2 quote_pattern [39]"
  have t2: "?t2 \<noteq> []" using assms by (simp add: clean_text_Nil_iff)
  then have t4: "?t4 \<noteq> []" by (simp add: replace_Nil_iff quote_pattern_facts)
  have ct: "clean_text x = replace ?t4 [45, 45] [en_dash]"
    unfolding clean_text_steps normalize_dashes_def lit_dashes ..
  have n39: "\<not> is_space 39" and nd: "\<not> is_space en_dash"
    by (simp_all add: is_space_def en_dash_def)
  have "hd ?t4 = hd ?t2 \<or> hd ?t4 = hd [39]"
    using t2 by (intro replace_hd) (simp_all add: quote_pattern_facts)
  then have h4: "\<not> is_space (hd ?t4)" using strip_hd[OF t2] n39 by auto
  have "hd (clean_text x) = hd ?t4 \<or> hd (clean_text x) = hd [en_dash]"
    unfolding ct using t4 by (intro replace_hd) simp_all
  then show "\<not> is_space (hd (clean_text x))" using h4 nd by auto
  have "last ?t4 = last ?t2 \<or> last ?t4 = last [39]"
    using t2 by (intro replace_last) (simp_all add: quote_pattern_facts)
  then have l4: "\<not> is_space (last ?t4)" using strip_last[OF t2] n39 by auto
  have "last (clean_text x) = last ?t4 \<or> last (clean_text x) = last [en_dash]"
    unfolding ct using t4 by (intro replace_last) simp_all
  then show "\<not> is_space (last (clean_text x))" using l4 nd by auto
qed

lemma sub_spaces_all_space:
  "list_all is_space s \<Longrightarrow> sub_spaces s = [] \<or> sub_spaces s = [32]"
proof (cases s)
  case Nil
  then show ?thesis by simp
next
  case (Cons c cs)
  assume "list_all is_space s"
  then have c: "is_space c" and d: "dropWhile is_space cs = []"
    using Cons by (simp_all add: dropWhile_all)
  show ?thesis using Cons c by (simp add: d)
qed

lemma clean_text_all_space: "list_all is_space s \<Longrightarrow> clean_text s = []"
proof -
  assume "list_all is_space s"
  then have "sub_spaces s = [] \<or> sub_spaces s = [32]" by (rule sub_spaces_all_space)
  then have "list_all is_space (sub_spaces s)" using is_space_32 by auto
  then have "strip (sub_spaces s) = []" by (rule strip_all_space)
  then show ?thesis by (simp add: clean_text_Nil_iff)
qed

lemma clean_text_strip_Nil: "strip s = [] \<Longrightarrow> clean_text s = []"
proof -
  assume "strip s = []"
  then have "dropWhile is_space (rev (dropWhile is_space s)) = []"
    unfolding strip_def rev_is_Nil_conv .
  then have "\<forall>c \<in> set (rev (dropWhile is_space s)). is_space c"
    by (simp only: dropWhile_eq_Nil_conv)
  then have "dropWhile is_space s = []"
    by (metis hd_dropWhile hd_in_set set_rev)
  then have "list_all is_space s" by (simp add: list_all_iff)
  then show ?thesis by (rule clean_text_all_space)
qed

subsection \<open>Dashes\<close>

lemma replace_pairs_eq: "replace s [45, 45] [d] = replace_pairs d s"
  by (induction d s rule: replace_pairs.induct) auto

lemma replace_pairs_hd:
  "a \<noteq> 45 \<Longrightarrow> replace_pairs d (a # cs) \<noteq> [] \<and> hd (replace_pairs d (a # cs)) = a"
  by (cases cs) auto

lemma replace_pairs_no_twice: "d \<noteq> 45 \<Longrightarrow> \<not> twice 45 (replace_pairs d s)"
proof (induction d s rule: replace_pairs.induct)
  case (1 d a b cs)
  show ?case
  proof (cases "a = 45 \<and> b = 45")
    case True
    then show ?thesis using 1 by (simp add: twice_Cons)
  next
    case False
    show ?thesis
    proof (cases "a = 45")
      case True
      then have "b \<noteq> 45" using False by simp
      then have "hd (replace_pairs d (b # cs)) \<noteq> 45" by (simp add: replace_pairs_hd)
      then show ?thesis using False 1 by (simp add: twice_Cons)
    next
      case a: False
      then show ?thesis using False 1 by (simp add: twice_Cons)
    qed
  qed
qed simp_all

lemma clean_text_example: "clean_text (lit ''  a   b  '') = lit ''a b''"
  by (simp add: clean_text_def lit_def strip_def is_space_def quote_pattern_def
      normalize_dashes_def en_dash_def)


subsection \<open>Idempotence away from line 41\<close>

text \<open>
  When the fifteen characters of line 41 do not stand in the text once its white space is
  collapsed and trimmed, a second pass of \<open>clean_text\<close> changes nothing: line 41 is the
  only step that can undo idempotence.
\<close>

lemma replace_absent:
  "old \<noteq> [] \<Longrightarrow> \<not> sublist old s \<Longrightarrow> replace s old new = s"
proof (induction s)
  case Nil
  then show ?case by simp
next
  case (Cons c cs)
  have np: "\<not> prefix old (c # cs)" and ns: "\<not> sublist old cs"
    using Cons.prems(2) by (auto simp: sublist_Cons_right)
  have "take (length old) (c # cs) \<noteq> old"
  proof
    assume "take (length old) (c # cs) = old"
    then have "prefix old (c # cs)" by (metis take_is_prefix)
    with np show False by simp
  qed
  then show ?case using Cons.IH[OF Cons.prems(1) ns] Cons.prems(1) by simp
qed

lemma replace_pairs_prefix:
  "prefix q (replace_pairs d s) \<Longrightarrow> d \<notin> set q \<Longrightarrow> prefix q s"
proof (induction d s arbitrary: q rule: replace_pairs.induct)
  case (1 d a b cs)
  show ?case
  proof (cases q)
    case Nil
    then show ?thesis by simp
  next
    case (Cons y ys)
    show ?thesis
    proof (cases "a = 45 \<and> b = 45")
      case True
      then show ?thesis using 1(3,4) Cons by auto
    next
      case False
      then have "prefix ys (replace_pairs d (b # cs))" and "y = a"
        using 1(3) Cons by auto
      moreover have "d \<notin> set ys" using 1(4) Cons by simp
      ultimately have "prefix ys (b # cs)" using 1(2) False by blast
      then show ?thesis using Cons \<open>y = a\<close> by simp
    qed
  qed
qed simp_all

lemma replace_pairs_sublist:
  "sublist q (replace_pairs d s) \<Longrightarrow> d \<notin> set q \<Longrightarrow> sublist q s"
proof (induction d s rule: replace_pairs.induct)
  case (1 d a b cs)
  show ?case
  proof (cases "prefix q (replace_pairs d (a # b # cs))")
    case True
    then have "prefix q (a # b # cs)" using 1(4) by (rule replace_pairs_prefix)
    then show ?thesis by (rule prefix_imp_sublist)
  next
    case np: False
    show ?thesis
    proof (cases "a = 45 \<and> b = 45")
      case True
      then have rp: "replace_pairs d (a # b # cs) = d # replace_pairs d cs" by simp
      have "sublist q (replace_pairs d cs)"
        using 1(3) np unfolding rp by (simp add: sublist_Cons_right)
      then have "sublist q cs" using 1(1) True 1(4) by blast
      then show ?thesis by (simp add: sublist_Cons_right)
    next
      case False
      then have rp: "replace_pairs d (a # b # cs) = a # replace_pairs d (b # cs)" by auto
      have "sublist q (replace_pairs d (b # cs))"
        using 1(3) np unfolding rp by (simp add: sublist_Cons_right)
      then have "sublist q (b # cs)" using 1(2) False 1(4) by blast
      then show ?thesis by (simp add: sublist_Cons_right)
    qed
  qed
qed simp_all

lemma replace_pairs_id: "\<not> twice 45 s \<Longrightarrow> replace_pairs d s = s"
  by (induction d s rule: replace_pairs.induct) auto

lemma sub_spaces_id:
  "\<forall>c \<in> set s. is_space c \<longrightarrow> c = 32 \<Longrightarrow> \<not> twice 32 s \<Longrightarrow> sub_spaces s = s"
proof (induction s)
  case Nil
  show ?case by simp
next
  case (Cons c cs)
  have ih: "sub_spaces cs = cs" using Cons by (simp add: twice_Cons)
  show ?case
  proof (cases "is_space c")
    case False
    then show ?thesis using ih by simp
  next
    case True
    then have c: "c = 32" using Cons.prems(1) by simp
    have "dropWhile is_space cs = cs"
    proof (cases cs)
      case Nil
      then show ?thesis by simp
    next
      case (Cons y ys)
      have "y \<noteq> 32" using Cons.prems(2) c Cons by (simp add: twice_Cons)
      moreover have "is_space y \<longrightarrow> y = 32" using Cons.prems(1) Cons by simp
      ultimately show ?thesis using Cons by auto
    qed
    then show ?thesis using True c ih by simp
  qed
qed

lemma dropWhile_hd: "s \<noteq> [] \<Longrightarrow> \<not> P (hd s) \<Longrightarrow> dropWhile P s = s"
  by (cases s) simp_all

lemma strip_id:
  "s = [] \<or> (\<not> is_space (hd s) \<and> \<not> is_space (last s)) \<Longrightarrow> strip s = s"
proof (cases "s = []")
  case True
  then show ?thesis by (simp add: strip_def)
next
  case False
  assume "s = [] \<or> (\<not> is_space (hd s) \<and> \<not> is_space (last s))"
  then have h: "\<not> is_space (hd s)" and l: "\<not> is_space (last s)" using False by auto
  have 1: "dropWhile is_space s = s" using False h by (rule dropWhile_hd)
  have "rev s \<noteq> []" using False by simp
  moreover have "\<not> is_space (hd (rev s))" using l False by (simp add: hd_rev)
  ultimately have 2: "dropWhile is_space (rev s) = rev s" by (rule dropWhile_hd)
  show ?thesis unfolding strip_def 1 2 by simp
qed

lemma clean_text_spaces: "c \<in> set (clean_text x) \<Longrightarrow> is_space c \<Longrightarrow> c = 32"
proof -
  assume c: "c \<in> set (clean_text x)" and s: "is_space c"
  let ?t2 = "strip (sub_spaces x)"
  let ?t4 = "replace ?t2 quote_pattern [39]"
  have "set (clean_text x) \<subseteq> set ?t4 \<union> set [en_dash]"
    unfolding clean_text_steps normalize_dashes_def lit_dashes by (rule replace_set) simp
  moreover have "set ?t4 \<subseteq> set ?t2 \<union> set [39]"
    using quote_pattern_facts(1) by (rule replace_set)
  moreover have "set ?t2 \<subseteq> set (sub_spaces x)"
    using strip_sublist by (rule set_mono_sublist)
  ultimately have "c \<in> set (sub_spaces x) \<or> c = 39 \<or> c = en_dash" using c by auto
  moreover have "\<not> is_space 39" "\<not> is_space en_dash" by (simp_all add: is_space_def en_dash_def)
  ultimately have "c \<in> set (sub_spaces x)" using s by auto
  then show ?thesis using s by (rule sub_spaces_only_32)
qed

lemma clean_text_idempotent_without_pattern:
  assumes "\<not> sublist quote_pattern (strip (sub_spaces x))"
  shows "clean_text (clean_text x) = clean_text x"
proof -
  let ?t = "strip (sub_spaces x)"
  let ?r = "clean_text x"
  have t4: "replace ?t quote_pattern [39] = ?t"
    using quote_pattern_facts(1) assms by (rule replace_absent)
  have r: "?r = replace_pairs en_dash ?t"
    unfolding clean_text_steps t4 by (simp add: normalize_dashes_def lit_dashes replace_pairs_eq)
  have 1: "sub_spaces ?r = ?r"
    using clean_text_spaces[of _ x] clean_text_no_double_space[of x] by (intro sub_spaces_id) auto
  have 2: "strip ?r = ?r"
    using clean_text_ends[of x] by (intro strip_id) auto
  have "en_dash \<notin> set quote_pattern" by (simp add: quote_pattern_def en_dash_def)
  then have "\<not> sublist quote_pattern ?r"
    unfolding r using assms replace_pairs_sublist by blast
  then have 3: "replace ?r quote_pattern [39] = ?r"
    using quote_pattern_facts(1) by (intro replace_absent)
  have "\<not> twice 45 ?r" unfolding r by (rule replace_pairs_no_twice) (simp add: en_dash_def)
  then have 4: "normalize_dashes ?r = ?r"
    by (simp add: normalize_dashes_def lit_dashes replace_pairs_eq replace_pairs_id)
  show ?thesis
    unfolding clean_text_steps[of "clean_text x"] 1 2 3 4 ..
qed

section \<open>Lemmas on the Block Mapper\<close>

lemma add_list_items_append:
  "add_list_items name lis doc =
     doc @ add_list_items name lis []"
proof (induction lis arbitrary: doc)
  case Nil
  show ?case by simp
next
  case (Cons li lis)
  show ?case
    using Cons.IH[of "doc @ [(add_paragraph (clean_text (get_text li)))
                    \<lparr>style := Some (if name = lit ''ul'' then lit ''List Bullet''
                                    else lit ''List Number''),
                     left_indent := Some (Pt 36)\<rparr>]"]
      Cons.IH[of "[(add_paragraph (clean_text (get_text li)))
                    \<lparr>style := Some (if name = lit ''ul'' then lit ''List Bullet''
                                    else lit ''List Number''),
                     left_indent := Some (Pt 36)\<rparr>]"]
      Cons.IH[of doc]
    by (simp add: Let_def)
qed

lemma add_list_items_length:
  "length (add_list_items name lis []) =
     length (filter (\<lambda>li. clean_text (get_text li) \<noteq> []) lis)"
proof (induction lis)
  case Nil
  show ?case by simp
next
  case (Cons li lis)
  show ?case
    using Cons add_list_items_append[of name lis "[p]" for p]
    by (simp add: Let_def)
qed

lemma add_list_items_texts:
  "map (\<lambda>p. map rtext (runs p)) (add_list_items name lis []) =
     map (\<lambda>li. [clean_text (get_text li)]) (filter (\<lambda>li. clean_text (get_text li) \<noteq> []) lis)"
proof (induction lis)
  case Nil
  show ?case by simp
next
  case (Cons li lis)
  show ?case
    using Cons add_list_items_append[of name lis "[p]" for p]
    by (simp add: Let_def add_paragraph_def new_run_def)
qed

lemma add_list_items_format:
  "list_all (\<lambda>p. style p = Some (if name = lit ''ul'' then lit ''List Bullet'' else lit ''List Number'')
       \<and> left_indent p = Some (Pt 36)) (add_list_items name lis [])"
proof (induction lis)
  case Nil
  show ?case by simp
next
  case (Cons li lis)
  show ?case
    using Cons add_list_items_append[of name lis "[p]" for p]
    by (simp add: Let_def)
qed

lemma lit_names:
  "lit ''ul'' \<notin> set [lit ''h1'', lit ''h2'', lit ''h3'', lit ''h4'', lit ''h5'', lit ''h6'']"
  "lit ''ol'' \<notin> set [lit ''h1'', lit ''h2'', lit ''h3'', lit ''h4'', lit ''h5'', lit ''h6'']"
  "lit ''hr'' \<notin> set [lit ''h1'', lit ''h2'', lit ''h3'', lit ''h4'', lit ''h5'', lit ''h6'']"
  "lit ''ul'' \<noteq> lit ''p''" "lit ''ol'' \<noteq> lit ''p''" "lit ''hr'' \<noteq> lit ''p''"
  "lit ''ol'' \<noteq> lit ''ul''"
  "lit ''hr'' \<notin> set [lit ''ul'', lit ''ol'']"
  "lit ''hr'' \<noteq> lit ''blockquote''" "lit ''hr'' \<noteq> lit ''pre''"
  by (simp_all add: lit_def)

lemma process_list:
  "name \<in> set [lit ''ul'', lit ''ol''] \<Longrightarrow>
   process_element (Tag name children) doc =
     doc @ add_list_items name (find_all (lit ''li'') children) []"
  using add_list_items_append[of name "find_all (lit ''li'') children" doc] lit_names
  by (auto simp: process_element_def)

lemma process_hr:
  "process_element (Tag (lit ''hr'') children) doc =
     doc @ [(add_paragraph [])
              \<lparr>alignment := Some 1,
               runs := [(new_run (replicate 30 9472))\<lparr>font_size := Some (Pt 12)\<rparr>]\<rparr>]"
  using lit_names by (simp add: process_element_def)


lemma process_text:
  "process_element (Text s) doc = doc \<or>
   (\<exists>p. process_element (Text s) doc = doc @ [p] \<and> strip s \<noteq> [])"
  by (simp add: process_element_def Let_def)

lemma process_other:
  "name \<notin> set [lit ''ul'', lit ''ol''] \<Longrightarrow>
   process_element (Tag name children) doc = doc \<or>
   (\<exists>p. process_element (Tag name children) doc = doc @ [p] \<and>
        (clean_text (get_text (Tag name children)) \<noteq> [] \<or> name = lit ''hr''))"
  by (simp add: process_element_def Let_def)

lemma is_list_Tag: "is_list (Tag name children) \<longleftrightarrow> name \<in> set [lit ''ul'', lit ''ol'']"
  by (auto simp: is_list_def)

lemma items_all_space:
  assumes "list_all is_space (concat (map get_text children))"
  shows "filter (\<lambda>li. clean_text (get_text li) \<noteq> []) (find_all name children) = []"
proof -
  have "clean_text (get_text li) = []" if "li \<in> set children" for li
  proof -
    have "list_all is_space (get_text li)"
      using assms that by (auto simp: list_all_iff)
    then show ?thesis by (rule clean_text_all_space)
  qed
  then show ?thesis by (auto simp: find_all_def filter_empty_conv)
qed

lemma clean_text_one: "clean_text (lit ''one'') = lit ''one''"
  by (simp add: clean_text_def lit_def strip_def is_space_def quote_pattern_def
      normalize_dashes_def en_dash_def)

lemma clean_text_two: "clean_text (lit ''two'') = lit ''two''"
  by (simp add: clean_text_def lit_def strip_def is_space_def quote_pattern_def
      normalize_dashes_def en_dash_def)

lemma clean_text_blank: "clean_text (lit '' '') = []"
  by (rule clean_text_all_space) (simp add: lit_def is_space_def)
section \<open>Lemmas on the converters\<close>

lemma except_clause_simps:
  "except_clause f (OSError msg) st = (Inr False, py_print (error_line f msg) st)"
  "except_clause f (UnicodeDecodeError msg) st = (Inl (UnicodeDecodeError msg), st)"
  "except_clause f (OtherError msg) st = (Inl (OtherError msg), st)"
  by (simp_all add: except_clause_def)

lemma except_clause_reports:
  "except_clause f (OSError msg) st =
     (Inr False, st\<lparr>stdout := stdout st @ [lit ''Error processing file '' @ f @ lit '': '' @ msg]\<rparr>)"
  by (simp add: except_clause_def py_print_def error_line_def)

lemma convert_read_fails:
  "read_text P f (world st) = Inl e \<Longrightarrow>
   convert_md_to_docx P f outp st = except_clause f e st"
  by (simp add: convert_md_to_docx_def convert_body_def)

lemma convert_parse_fails:
  "read_text P f (world st) = Inr md \<Longrightarrow> markdown_soup P md = Inl e \<Longrightarrow>
   convert_md_to_docx P f outp st = except_clause f e st"
  by (simp add: convert_md_to_docx_def convert_body_def)

lemma convert_build_fails:
  "read_text P f (world st) = Inr md \<Longrightarrow> markdown_soup P md = Inr soup \<Longrightarrow>
   build_document P soup = Inl e \<Longrightarrow>
   convert_md_to_docx P f outp st = except_clause f e st"
  by (simp add: convert_md_to_docx_def convert_body_def)

lemma convert_makedirs_fails:
  "read_text P f (world st) = Inr md \<Longrightarrow> markdown_soup P md = Inr soup \<Longrightarrow>
   build_document P soup = Inr doc \<Longrightarrow>
   ensure_output_dir P (output_file_of P (world st) f outp) (world st) = (Some e, w1) \<Longrightarrow>
   convert_md_to_docx P f outp st = except_clause f e (st\<lparr>world := w1\<rparr>)"
  by (simp add: convert_md_to_docx_def convert_body_def Let_def)

lemma convert_save_fails:
  "read_text P f (world st) = Inr md \<Longrightarrow> markdown_soup P md = Inr soup \<Longrightarrow>
   build_document P soup = Inr doc \<Longrightarrow>
   ensure_output_dir P (output_file_of P (world st) f outp) (world st) = (None, w1) \<Longrightarrow>
   save P doc (output_file_of P (world st) f outp) w1 = (Some e, w2) \<Longrightarrow>
   convert_md_to_docx P f outp st = except_clause f e (st\<lparr>world := w2\<rparr>)"
  by (simp add: convert_md_to_docx_def convert_body_def Let_def)

lemma convert_succeeds:
  "read_text P f (world st) = Inr md \<Longrightarrow> markdown_soup P md = Inr soup \<Longrightarrow>
   build_document P soup = Inr doc \<Longrightarrow>
   ensure_output_dir P (output_file_of P (world st) f outp) (world st) = (None, w1) \<Longrightarrow>
   save P doc (output_file_of P (world st) f outp) w1 = (None, w2) \<Longrightarrow>
   convert_md_to_docx P f outp st =
     (Inr True, py_print (success_line f (output_file_of P (world st) f outp)) (st\<lparr>world := w2\<rparr>))"
  by (simp add: convert_md_to_docx_def convert_body_def Let_def)

lemma convert_saves_at:
  "read_text P f (world st) = Inr md \<Longrightarrow> markdown_soup P md = Inr soup \<Longrightarrow>
   build_document P soup = Inr doc \<Longrightarrow>
   ensure_output_dir P (output_file_of P (world st) f outp) (world st) = (None, w1) \<Longrightarrow>
   world (snd (convert_md_to_docx P f outp st)) =
     snd (save P doc (output_file_of P (world st) f outp) w1)"
  by (cases "save P doc (output_file_of P (world st) f outp) w1")
     (auto simp: convert_md_to_docx_def convert_body_def Let_def except_clause_def py_print_def
           split: option.splits exn.splits)

lemma convert_raises_other:
  "convert_md_to_docx P f outp st = (Inl e, st') \<Longrightarrow> e \<noteq> OSError m"
  by (auto simp: convert_md_to_docx_def except_clause_def split: prod.splits option.splits exn.splits)

lemma convert_files_filter:
  "convert_files P d outp names (s, f) st = convert_each P d outp (filter is_md names) (s, f) st"
proof (induction names arbitrary: s f st)
  case Nil
  show ?case by simp
next
  case (Cons n ns)
  show ?case
    by (auto simp: Cons Let_def split: prod.splits sum.splits)
qed

lemma convert_each_counts:
  "(\<exists>s' f' st'. convert_each P d outp names (s, f) st = (Inr (s', f'), st') \<and>
       s' + f' = s + f + length names \<and> s \<le> s' \<and> f \<le> f') \<or>
   (\<exists>e st'. convert_each P d outp names (s, f) st = (Inl e, st') \<and> (\<forall>m. e \<noteq> OSError m))"
proof (induction names arbitrary: s f st)
  case Nil
  show ?case by simp
next
  case (Cons n ns)
  obtain r st1 where c: "convert_md_to_docx P (join d n) outp st = (r, st1)"
    by (cases "convert_md_to_docx P (join d n) outp st")
  show ?case
  proof (cases r)
    case (Inl e)
    then have "\<forall>m. e \<noteq> OSError m" using c convert_raises_other by blast
    then show ?thesis using c Inl by simp
  next
    case (Inr ok)
    show ?thesis
    proof (cases ok)
      case True
      from Cons[of "s + 1" f st1] show ?thesis using c Inr True by auto
    next
      case False
      from Cons[of s "f + 1" st1] show ?thesis using c Inr False by auto
    qed
  qed
qed

subsection \<open>The steps of the two converters\<close>

text \<open>
  What \<open>convert_md_to_docx\<close> returns and prints, by the step that raises, and what the
  loop and \<open>convert_directory\<close> do with its results.
\<close>

lemma convert_md_to_docx_steps:
  "(read_text P f (world st) = Inl e \<longrightarrow>
      convert_md_to_docx P f outp st = except_clause f e st) \<and>
   (read_text P f (world st) = Inr md \<and> markdown_soup P md = Inl e \<longrightarrow>
      convert_md_to_docx P f outp st = except_clause f e st) \<and>
   (read_text P f (world st) = Inr md \<and> markdown_soup P md = Inr soup \<and>
    build_document P soup = Inl e \<longrightarrow>
      convert_md_to_docx P f outp st = except_clause f e st) \<and>
   (read_text P f (world st) = Inr md \<and> markdown_soup P md = Inr soup \<and>
    build_document P soup = Inr doc \<and>
    ensure_output_dir P (output_file_of P (world st) f outp) (world st) = (Some e, w1) \<longrightarrow>
      convert_md_to_docx P f outp st = except_clause f e (st\<lparr>world := w1\<rparr>)) \<and>
   (read_text P f (world st) = Inr md \<and> markdown_soup P md = Inr soup \<and>
    build_document P soup = Inr doc \<and>
    ensure_output_dir P (output_file_of P (world st) f outp) (world st) = (None, w1) \<and>
    save P doc (output_file_of P (world st) f outp) w1 = (Some e, w2) \<longrightarrow>
      convert_md_to_docx P f outp st = except_clause f e (st\<lparr>world := w2\<rparr>)) \<and>
   (read_text P f (world st) = Inr md \<and> markdown_soup P md = Inr soup \<and>
    build_document P soup = Inr doc \<and>
    ensure_output_dir P (output_file_of P (world st) f outp) (world st) = (None, w1) \<and>
    save P doc (output_file_of P (world st) f outp) w1 = (None, w2) \<longrightarrow>
      convert_md_to_docx P f outp st =
        (Inr True,
         st\<lparr>world := w2,
            stdout := stdout st @
              [lit ''Successfully converted '' @ f @ lit '' to '' @
               output_file_of P (world st) f outp]\<rparr>))"
  using convert_read_fails[of P f st e outp] convert_parse_fails[of P f st md e outp]
    convert_build_fails[of P f st md soup e outp]
    convert_makedirs_fails[of P f st md soup doc outp e w1]
    convert_save_fails[of P f st md soup doc outp w1 e w2]
    convert_succeeds[of P f st md soup doc outp w1 w2]
  by (auto simp: py_print_def success_line_def)

lemma convert_directory_steps:
  "convert_files P d outp names (s, f) st =
     convert_each P d outp (filter is_md names) (s, f) st \<and>
   ((\<exists>s' f' st'. convert_files P d outp names (s, f) st = (Inr (s', f'), st') \<and>
        s' + f' = s + f + length (filter is_md names) \<and> s \<le> s' \<and> f \<le> f') \<or>
    (\<exists>e st'. convert_files P d outp names (s, f) st = (Inl e, st') \<and> (\<forall>m. e \<noteq> OSError m))) \<and>
   (isdir P d (world st) \<and> prepare_output_dir P outp (world st) = (None, w1) \<and>
    listdir P d w1 = Inr names \<longrightarrow>
      convert_directory P d outp st =
        (case convert_files P d outp names (0, 0) (st\<lparr>world := w1\<rparr>) of
           (Inr (s', f'), st') \<Rightarrow> (None, st'\<lparr>stdout := stdout st' @ summary s' f'\<rparr>)
         | (Inl e, st') \<Rightarrow> (Some e, st')))"
proof (intro conjI)
  show "convert_files P d outp names (s, f) st =
     convert_each P d outp (filter is_md names) (s, f) st"
    by (rule convert_files_filter)
  show "(\<exists>s' f' st'. convert_files P d outp names (s, f) st = (Inr (s', f'), st') \<and>
        s' + f' = s + f + length (filter is_md names) \<and> s \<le> s' \<and> f \<le> f') \<or>
    (\<exists>e st'. convert_files P d outp names (s, f) st = (Inl e, st') \<and> (\<forall>m. e \<noteq> OSError m))"
    unfolding convert_files_filter by (rule convert_each_counts)
  show "isdir P d (world st) \<and> prepare_output_dir P outp (world st) = (None, w1) \<and>
    listdir P d w1 = Inr names \<longrightarrow>
      convert_directory P d outp st =
        (case convert_files P d outp names (0, 0) (st\<lparr>world := w1\<rparr>) of
           (Inr (s', f'), st') \<Rightarrow> (None, st'\<lparr>stdout := stdout st' @ summary s' f'\<rparr>)
         | (Inl e, st') \<Rightarrow> (Some e, st'))"
    by (auto simp: convert_directory_def split: prod.splits sum.splits)
qed

subsection \<open>Extensions\<close>

lemma rfind_absent: "c \<notin> set s \<Longrightarrow> rfind s c = -1"
proof -
  assume "c \<notin> set s"
  then have "list_all (\<lambda>x. x \<noteq> c) (rev s)" by (auto simp: list_all_iff)
  then have "dropWhile (\<lambda>x. x \<noteq> c) (rev s) = []" by (rule dropWhile_all)
  then show ?thesis unfolding rfind_def by simp
qed

lemma dropWhile_rev_absent:
  "c \<notin> set t \<Longrightarrow> dropWhile (\<lambda>x. x \<noteq> c) (rev t @ ys) = dropWhile (\<lambda>x. x \<noteq> c) ys"
  by (rule dropWhile_append2) auto

lemma rfind_append_absent: "c \<notin> set t \<Longrightarrow> rfind (s @ t) c = rfind s c"
  by (simp add: rfind_def dropWhile_rev_absent)

lemma rfind_last: "c \<notin> set t \<Longrightarrow> rfind (s @ c # t) c = int (length s)"
  by (simp add: rfind_def dropWhile_rev_absent)

lemma rfind_bounds: "- 1 \<le> rfind s c \<and> rfind s c < int (length s)"
proof -
  have "length (dropWhile (\<lambda>x. x \<noteq> c) (rev s)) \<le> length (rev s)"
    by (rule length_dropWhile_le)
  then show ?thesis unfolding rfind_def by simp
qed

lemma splitext_ext:
  assumes "46 \<notin> set ext" and "47 \<notin> set ext" and "list_ex (\<lambda>c. c \<noteq> 46) (basename stem)"
  shows "splitext (stem @ [46] @ ext) = (stem, 46 # ext)"
proof -
  let ?p = "stem @ [46] @ ext"
  have dot: "rfind ?p 46 = int (length stem)"
    using assms(1) by (simp add: rfind_last)
  have "47 \<notin> set ([46] @ ext)" using assms(2) by simp
  then have sep: "rfind ?p 47 = rfind stem 47" by (rule rfind_append_absent)
  define k where "k = nat (rfind stem 47 + 1)"
  have kb: "k \<le> length stem" and ki: "rfind stem 47 + 1 = int k"
    using rfind_bounds[of stem 47] unfolding k_def by linarith+
  have lt: "rfind ?p 47 < rfind ?p 46" unfolding dot sep using rfind_bounds[of stem 47] by simp
  have "take (nat (rfind ?p 46 - (rfind ?p 47 + 1))) (drop (nat (rfind ?p 47 + 1)) ?p)
          = take (length stem - k) (drop k stem @ [46] @ ext)"
    unfolding dot sep ki using kb by simp
  also have "\<dots> = drop k stem" by simp
  finally have slice: "take (nat (rfind ?p 46 - (rfind ?p 47 + 1))) (drop (nat (rfind ?p 47 + 1)) ?p)
          = basename stem"
    by (simp add: basename_def k_def)
  have "splitext ?p = (take (nat (rfind ?p 46)) ?p, drop (nat (rfind ?p 46)) ?p)"
    unfolding splitext_def Let_def slice using lt assms(3) by simp
  then show ?thesis unfolding dot by simp
qed

subsection \<open>Runs on the small platform\<close>

lemmas fs_defs =
  fs_platform_def fs_read_text_def fs_isdir_def fs_makedirs_def fs_save_def fs_listdir_def
  fs0_def st0_def lit_def

lemma fs_world: "world st0 = fs0"
  by (simp add: st0_def)

lemma fs_read_a: "read_text fs_platform (lit ''D/a.md'') fs0 = Inr (lit ''Some  text'')"
  by (simp add: fs_defs)


lemma fs_read_zz:
  "read_text fs_platform (lit ''D/zz.md'') fs0 = Inl (OSError (lit ''No such file or directory''))"
  by (simp add: fs_defs)

lemma fs_read_c:
  "read_text fs_platform (lit ''B/c.MD'') fs0 = Inl (UnicodeDecodeError (lit ''invalid start byte''))"
  by (simp add: fs_defs)

lemma fs_soup: "markdown_soup fs_platform md = Inr [Tag (lit ''p'') [Text md]]"
  by (simp add: fs_platform_def)

lemma fs_isdir_simps:
  "isdir fs_platform (lit ''D'') fs0" "isdir fs_platform (lit ''B'') fs0"
  "isdir fs_platform (lit ''O'') fs0" "isdir fs_platform (lit ''D/x.md'') fs0"
  "\<not> isdir fs_platform (lit ''N/out.docx'') fs0"
  by (simp_all add: fs_defs)

lemma fs_listdir_D:
  "listdir fs_platform (lit ''D'') fs0 = Inr [lit ''a.md'', lit ''x.md'', lit ''notes.txt'']"
  by (simp add: fs_defs dirname_def basename_def rfind_def)

lemma fs_listdir_B: "listdir fs_platform (lit ''B'') fs0 = Inr [lit ''c.MD'', lit ''e.md'']"
  by (simp add: fs_defs dirname_def basename_def rfind_def)

lemma is_md_examples:
  "is_md (lit ''a.md'')" "is_md (lit ''x.md'')" "is_md (lit ''c.MD'')" "\<not> is_md (lit ''notes.txt'')"
  by (simp_all add: is_md_def endswith_def lower_def lit_def)

lemma join_examples:
  "join (lit ''D'') (lit ''a.md'') = lit ''D/a.md''"
  "join (lit ''D'') (lit ''x.md'') = lit ''D/x.md''"
  "join (lit ''B'') (lit ''c.MD'') = lit ''B/c.MD''"
  "join (lit ''O'') (lit ''a.docx'') = lit ''O/a.docx''"
  by (simp_all add: join_def lit_def)

lemma splitext_examples:
  "splitext (lit ''note.md'') = (lit ''note'', lit ''.md'')"
  "splitext (lit ''a.md'') = (lit ''a'', lit ''.md'')"
  "splitext (lit ''D/a.md'') = (lit ''D/a'', lit ''.md'')"
  by (simp_all add: splitext_def rfind_def lit_def Let_def)

lemma basename_example: "basename (lit ''D/a.md'') = lit ''a.md''"
  by (simp add: basename_def rfind_def lit_def)

lemma output_file_a: "output_file_of fs_platform fs0 (lit ''D/a.md'') None = lit ''D/a.docx''"
  by (simp add: output_file_of_def splitext_examples) (simp add: lit_def)

lemma ensure_a: "ensure_output_dir fs_platform (lit ''D/a.docx'') fs0 = (None, fs0)"
  by (simp add: ensure_output_dir_def dirname_def rfind_def fs_defs Let_def)

lemma doc_a:
  "process_html_to_docx [Tag (lit ''p'') [Text (lit ''Some  text'')]] [] =
     [(add_paragraph (lit ''Some text''))\<lparr>style := Some (lit ''Normal'')\<rparr>]"
proof -
  have "clean_text (lit ''Some  text'') = lit ''Some text''"
    by (simp add: clean_text_def lit_def strip_def is_space_def quote_pattern_def
      normalize_dashes_def en_dash_def)
  moreover have "lit ''Some text'' \<noteq> []" by (simp add: lit_def)
  ultimately show ?thesis
    by (simp add: process_element_def Let_def) (simp add: lit_def)
qed

lemma build_a:
  "build_document fs_platform [Tag (lit ''p'') [Text (lit ''Some  text'')]] =
     Inr [(add_paragraph (lit ''Some text''))\<lparr>style := Some (lit ''Normal'')\<rparr>]"
proof -
  have "xml_text_error (lit ''Some text'') = None"
    by (simp add: xml_text_error_def lit_def)
  then show ?thesis
    unfolding build_document_def doc_a
    by (simp add: run_texts_def add_paragraph_def new_run_def fs_platform_def)
qed

text \<open>A paragraph with the control character U+0007: the build raises.\<close>

lemma build_control_character:
  "build_document fs_platform [Tag (lit ''p'') [Text [97, 7, 98]]] =
     Inl (OtherError (lit ''All strings must be XML compatible''))"
proof -
  have c: "clean_text [97, 7, 98] = [97, 7, 98]"
    by (simp add: clean_text_def lit_def strip_def is_space_def quote_pattern_def
      normalize_dashes_def en_dash_def)
  have d: "process_html_to_docx [Tag (lit ''p'') [Text [97, 7, 98]]] [] =
             [(add_paragraph [97, 7, 98])\<lparr>style := Some (lit ''Normal'')\<rparr>]"
    by (simp add: process_element_def Let_def c) (simp add: lit_def)
  show ?thesis
    unfolding build_document_def d
    by (simp add: run_texts_def add_paragraph_def new_run_def fs_platform_def xml_text_error_def)
qed

lemma save_a:
  "save fs_platform [(add_paragraph (lit ''Some text''))\<lparr>style := Some (lit ''Normal'')\<rparr>]
     (lit ''D/a.docx'') fs0 = (None, (lit ''D/a.docx'', File (lit ''Some text'')) # fs0)"
  by (simp add: fs_defs add_paragraph_def new_run_def)

lemma convert_a:
  "convert_md_to_docx fs_platform (lit ''D/a.md'') None st0 =
     (Inr True, py_print (success_line (lit ''D/a.md'') (lit ''D/a.docx''))
                  (st0\<lparr>world := (lit ''D/a.docx'', File (lit ''Some text'')) # fs0\<rparr>))"
proof -
  have r: "read_text fs_platform (lit ''D/a.md'') (world st0) = Inr (lit ''Some  text'')"
    unfolding fs_world by (rule fs_read_a)
  have e: "ensure_output_dir fs_platform
             (output_file_of fs_platform (world st0) (lit ''D/a.md'') None) (world st0) = (None, fs0)"
    unfolding fs_world output_file_a by (rule ensure_a)
  have s: "save fs_platform [(add_paragraph (lit ''Some text''))\<lparr>style := Some (lit ''Normal'')\<rparr>]
             (output_file_of fs_platform (world st0) (lit ''D/a.md'') None) fs0 =
           (None, (lit ''D/a.docx'', File (lit ''Some text'')) # fs0)"
    unfolding fs_world output_file_a by (rule save_a)
  show ?thesis
    using convert_succeeds[OF r fs_soup build_a e s] unfolding fs_world output_file_a .
qed

lemma convert_files_D:
  "convert_files fs_platform (lit ''D'') None [lit ''a.md'', lit ''x.md'', lit ''notes.txt''] (0, 0) st0 =
     (Inr (1, 1),
      py_print (error_line (lit ''D/x.md'') (lit ''Is a directory''))
        (py_print (success_line (lit ''D/a.md'') (lit ''D/a.docx''))
           (st0\<lparr>world := (lit ''D/a.docx'', File (lit ''Some text'')) # fs0\<rparr>)))"
proof -
  let ?st1 = "py_print (success_line (lit ''D/a.md'') (lit ''D/a.docx''))
           (st0\<lparr>world := (lit ''D/a.docx'', File (lit ''Some text'')) # fs0\<rparr>)"
  have r: "read_text fs_platform (lit ''D/x.md'') (world ?st1) = Inl (OSError (lit ''Is a directory''))"
    by (simp add: py_print_def fs_defs)
  have x: "convert_md_to_docx fs_platform (lit ''D/x.md'') None ?st1 =
             (Inr False, py_print (error_line (lit ''D/x.md'') (lit ''Is a directory'')) ?st1)"
    using convert_read_fails[OF r] by (simp add: except_clause_simps)
  show ?thesis
    by (simp add: is_md_examples join_examples convert_a x Let_def)
qed

section \<open>The claims on the Text Normalizer\<close>

text \<open>
  Claim C2, as the code has it: line 43 replaces every occurrence of the two characters
  \<open>--\<close>, found from the left, by the single en dash U+2013, and no \<open>--\<close> is left in the
  result. (The claim names the em dash, U+2014.)
\<close>

theorem normalize_dashes_en_dash:
  "normalize_dashes s = replace_pairs en_dash s \<and> \<not> sublist (lit ''--'') (normalize_dashes s)"
proof -
  have eq: "normalize_dashes s = replace_pairs en_dash s"
    by (simp add: normalize_dashes_def lit_dashes replace_pairs_eq)
  have "\<not> twice 45 (replace_pairs en_dash s)"
    by (rule replace_pairs_no_twice) (simp add: en_dash_def)
  then show ?thesis using eq by (simp add: twice_sublist lit_dashes)
qed

theorem normalize_dashes_en_dash_witness:
  "normalize_dashes (lit ''a--b---c'') = [97, 8211, 98, 8211, 45, 99]"
  using normalize_dashes_en_dash[of "lit ''a--b---c''"]
  by (simp add: lit_def en_dash_def)

text \<open>On the text \<open>--\<close> the result is not the em dash.\<close>

theorem normalize_dashes_not_em_dash:
  "normalize_dashes (lit ''--'') \<noteq> replace_pairs em_dash (lit ''--'')"
  by (simp add: normalize_dashes_def lit_def en_dash_def em_dash_def)

text \<open>
  Claim C4, idempotence of \<open>clean_text\<close>, at the text \<open>nested_quote_text\<close>: the first pass
  replaces the fifteen characters of line 41 by a quote, which leaves those fifteen
  characters again; the second pass replaces them, so the two results differ.
\<close>

theorem clean_text_not_idempotent:
  "clean_text nested_quote_text = quote_pattern \<and>
   clean_text (clean_text nested_quote_text) = [39] \<and>
   clean_text (clean_text nested_quote_text) \<noteq> clean_text nested_quote_text"
proof -
  have a: "clean_text nested_quote_text = quote_pattern"
    by (simp add: clean_text_def lit_def strip_def is_space_def quote_pattern_def
      normalize_dashes_def en_dash_def nested_quote_text_def)
  have b: "clean_text quote_pattern = [39]"
    by (simp add: clean_text_def lit_def strip_def is_space_def quote_pattern_def
      normalize_dashes_def en_dash_def)
  have c: "quote_pattern \<noteq> [39]" by (simp add: quote_pattern_def)
  show ?thesis unfolding a b using c by simp
qed

text \<open>
  Claim C5: for every text, the result of \<open>clean_text\<close> has no two spaces in a row, and
  when it is not empty, neither its first nor its last character is white space.
\<close>

theorem clean_text_whitespace_law:
  "\<not> sublist [32, 32] (clean_text x) \<and>
   (clean_text x \<noteq> [] \<longrightarrow>
      \<not> is_space (hd (clean_text x)) \<and> \<not> is_space (last (clean_text x)))"
  using clean_text_no_double_space[of x] clean_text_ends[of x]
  by (simp add: twice_sublist)

theorem clean_text_whitespace_law_witness:
  "clean_text (lit ''  a   b  '') \<noteq> [] \<and>
   \<not> sublist [32, 32] (clean_text (lit ''  a   b  '')) \<and>
   \<not> is_space (hd (clean_text (lit ''  a   b  ''))) \<and>
   \<not> is_space (last (clean_text (lit ''  a   b  '')))"
proof -
  have "clean_text (lit ''  a   b  '') \<noteq> []"
    unfolding clean_text_example by (simp add: lit_def)
  then show ?thesis
    using clean_text_whitespace_law[of "lit ''  a   b  ''"] by simp
qed

section \<open>The claims on the Block Mapper\<close>

text \<open>
  Claim C1, as the code has it: a top-level node only appends paragraphs to the document;
  a node that is not a list appends at most one, a list (\<open>ul\<close>, \<open>ol\<close>) at most one for
  each direct \<open>li\<close> child; and a node other than a horizontal rule whose extracted text is
  empty or all white space appends none.
\<close>

theorem block_paragraph_bound:
  "\<exists>ps. process_element element doc = doc @ ps \<and>
        length ps \<le> (if is_list element then length (direct_items element) else 1) \<and>
        (\<not> is_tag (lit ''hr'') element \<and> list_all is_space (get_text element) \<longrightarrow> ps = [])"
proof (cases element)
  case (Text s)
  have nl: "\<not> is_list element" using Text by (simp add: is_list_def)
  from process_text[of s doc] show ?thesis
  proof
    assume "process_element (Text s) doc = doc"
    then show ?thesis using Text by simp
  next
    assume "\<exists>p. process_element (Text s) doc = doc @ [p] \<and> strip s \<noteq> []"
    then obtain p where p: "process_element (Text s) doc = doc @ [p]" and s: "strip s \<noteq> []"
      by blast
    have "\<not> list_all is_space s" using s strip_all_space by blast
    then show ?thesis using Text p nl by simp
  qed
next
  case (Tag name children)
  show ?thesis
  proof (cases "name \<in> set [lit ''ul'', lit ''ol'']")
    case True
    let ?lis = "find_all (lit ''li'') children"
    let ?ps = "add_list_items name ?lis []"
    have 1: "process_element element doc = doc @ ?ps"
      using Tag True by (simp only: process_list)
    have 2: "length ?ps \<le> length (direct_items element)"
      using Tag by (simp add: add_list_items_length)
    have 3: "?ps = []" if "list_all is_space (get_text element)"
    proof -
      have "length ?ps = 0"
        using that Tag by (simp add: add_list_items_length items_all_space)
      then show ?thesis by simp
    qed
    have "is_list element" using Tag True by (simp only: is_list_Tag)
    then show ?thesis using 1 2 3 by auto
  next
    case False
    have nl: "\<not> is_list element" using Tag False by (simp only: is_list_Tag not_False_eq_True)
    from process_other[OF False, of children doc] show ?thesis
    proof
      assume "process_element (Tag name children) doc = doc"
      then show ?thesis using Tag by simp
    next
      assume "\<exists>p. process_element (Tag name children) doc = doc @ [p] \<and>
        (clean_text (get_text (Tag name children)) \<noteq> [] \<or> name = lit ''hr'')"
      then obtain p where p: "process_element (Tag name children) doc = doc @ [p]"
        and c: "clean_text (get_text (Tag name children)) \<noteq> [] \<or> name = lit ''hr''"
        by blast
      have "\<not> (\<not> is_tag (lit ''hr'') element \<and> list_all is_space (get_text element))"
        using c Tag clean_text_all_space by auto
      then show ?thesis using Tag p nl by auto
    qed
  qed
qed

theorem block_paragraph_bound_witness:
  "list_all is_space (get_text (Tag (lit ''p'') [Text (lit ''  '')])) \<and>
   process_element (Tag (lit ''p'') [Text (lit ''  '')]) [] = [] \<and>
   length (process_element (Tag (lit ''ul'') [Tag (lit ''li'') [Text (lit ''one'')]]) []) \<le> 1"
proof -
  have a: "list_all is_space (get_text (Tag (lit ''p'') [Text (lit ''  '')]))"
    by (simp add: lit_def is_space_def)
  have b: "\<not> is_tag (lit ''hr'') (Tag (lit ''p'') [Text (lit ''  '')])"
    by (simp add: lit_def)
  have c: "is_list (Tag (lit ''ul'') [Tag (lit ''li'') [Text (lit ''one'')]])"
    by (simp add: is_list_def)
  have d: "length (direct_items (Tag (lit ''ul'') [Tag (lit ''li'') [Text (lit ''one'')]])) = 1"
    by (simp add: find_all_def)
  show ?thesis
    using a b c d
      block_paragraph_bound[of "Tag (lit ''p'') [Text (lit ''  '')]" "[]"]
      block_paragraph_bound[of "Tag (lit ''ul'') [Tag (lit ''li'') [Text (lit ''one'')]]" "[]"]
    by auto
qed

text \<open>
  A list of two items appends two paragraphs, and a horizontal rule, whose extracted text
  is empty, appends one.
\<close>

theorem block_paragraph_counterexample:
  "length (process_html_to_docx
     [Tag (lit ''ul'') [Tag (lit ''li'') [Text (lit ''one'')], Tag (lit ''li'') [Text (lit ''two'')]]]
     []) = 2 \<and>
   get_text (Tag (lit ''hr'') []) = [] \<and>
   length (process_html_to_docx [Tag (lit ''hr'') []] []) = 1"
proof -
  have "lit ''one'' \<noteq> []" "lit ''two'' \<noteq> []" by (simp_all add: lit_def)
  then show ?thesis
    by (simp add: process_list process_hr find_all_def Let_def clean_text_one clean_text_two)
qed

text \<open>
  Claim C3, as the code has it: a \<open>ul\<close> node appends one paragraph for each direct \<open>li\<close>
  child whose normalized text is not empty, and nothing else; each has the style
  \<open>List Bullet\<close> and a left indent of 36 points. An \<open>ol\<close> node does the same with the
  style \<open>List Number\<close>. With \<open>N\<close> direct items that is at most \<open>N\<close> paragraphs, and
  \<open>N\<close> when no item is empty.
\<close>

theorem list_items_paragraphs:
  "(\<exists>ps. process_element (Tag (lit ''ul'') children) doc = doc @ ps \<and>
         length ps = length (filter (\<lambda>li. clean_text (get_text li) \<noteq> [])
                              (find_all (lit ''li'') children)) \<and>
         list_all (\<lambda>p. style p = Some (lit ''List Bullet'') \<and> left_indent p = Some (Pt 36)) ps) \<and>
   (\<exists>ps. process_element (Tag (lit ''ol'') children) doc = doc @ ps \<and>
         length ps = length (filter (\<lambda>li. clean_text (get_text li) \<noteq> [])
                              (find_all (lit ''li'') children)) \<and>
         list_all (\<lambda>p. style p = Some (lit ''List Number'') \<and> left_indent p = Some (Pt 36)) ps)"
proof
  let ?lis = "find_all (lit ''li'') children"
  show "\<exists>ps. process_element (Tag (lit ''ul'') children) doc = doc @ ps \<and>
         length ps = length (filter (\<lambda>li. clean_text (get_text li) \<noteq> []) ?lis) \<and>
         list_all (\<lambda>p. style p = Some (lit ''List Bullet'') \<and> left_indent p = Some (Pt 36)) ps"
    using add_list_items_format[of "lit ''ul''" ?lis]
    by (intro exI[of _ "add_list_items (lit ''ul'') ?lis []"])
       (simp add: process_list add_list_items_length)
  show "\<exists>ps. process_element (Tag (lit ''ol'') children) doc = doc @ ps \<and>
         length ps = length (filter (\<lambda>li. clean_text (get_text li) \<noteq> []) ?lis) \<and>
         list_all (\<lambda>p. style p = Some (lit ''List Number'') \<and> left_indent p = Some (Pt 36)) ps"
    using add_list_items_format[of "lit ''ol''" ?lis] lit_names(7)
    by (intro exI[of _ "add_list_items (lit ''ol'') ?lis []"])
       (simp add: process_list add_list_items_length)
qed

theorem list_items_paragraphs_witness:
  "length (process_element
     (Tag (lit ''ul'') [Tag (lit ''li'') [Text (lit ''one'')], Tag (lit ''li'') [Text (lit ''two'')]])
     []) = 2"
proof -
  have "lit ''one'' \<noteq> []" "lit ''two'' \<noteq> []" by (simp_all add: lit_def)
  then show ?thesis
    using list_items_paragraphs[of
        "[Tag (lit ''li'') [Text (lit ''one'')], Tag (lit ''li'') [Text (lit ''two'')]]" "[]"]
    by (auto simp: find_all_def clean_text_one clean_text_two)
qed

text \<open>A list of two direct items, the first of them blank, appends one paragraph.\<close>

theorem list_items_counterexample:
  "length (find_all (lit ''li'')
     [Tag (lit ''li'') [Text (lit '' '')], Tag (lit ''li'') [Text (lit ''one'')]]) = 2 \<and>
   length (process_html_to_docx
     [Tag (lit ''ul'') [Tag (lit ''li'') [Text (lit '' '')], Tag (lit ''li'') [Text (lit ''one'')]]]
     []) = 1"
proof -
  have "lit ''one'' \<noteq> []" by (simp add: lit_def)
  then show ?thesis
    by (simp add: process_list find_all_def Let_def clean_text_one clean_text_blank)
qed

text \<open>
  Claim C6: an \<open>hr\<close> node, whatever its children, appends exactly one paragraph; the
  paragraph has the default style, is centered (alignment 1), and has one run, thirty
  times the character U+2500, of size 12 points.
\<close>

theorem horizontal_rule_paragraph:
  "\<exists>p r. process_element (Tag (lit ''hr'') children) doc = doc @ [p] \<and>
         runs p = [r] \<and> rtext r = replicate 30 9472 \<and> font_size r = Some (Pt 12) \<and>
         alignment p = Some 1 \<and> style p = None"
  by (simp add: process_hr add_paragraph_def new_run_def)

theorem horizontal_rule_paragraph_witness:
  "length (process_element (Tag (lit ''hr'') [Text (lit ''one'')]) []) = 1"
  using horizontal_rule_paragraph[of "[Text (lit ''one'')]" "[]"] by auto

section \<open>The claims on the File Converter\<close>

text \<open>
  Claim C7, at an input file whose bytes are not UTF-8: \<open>f.read()\<close> raises a
  \<open>UnicodeDecodeError\<close>, a \<open>ValueError\<close> and not an \<open>OSError\<close>, so the \<open>except\<close> clause
  does not catch it: nothing is printed and the exception leaves
  \<open>convert_md_to_docx\<close>, where the claim (an unreadable input is caught, reported and
  answered with \<open>False\<close>) and the docstring (\<open>False otherwise\<close>) say it returns \<open>False\<close>.
\<close>

theorem undecodable_input_propagates:
  "read_text P f (world st) = Inl (UnicodeDecodeError m) \<longrightarrow>
   convert_md_to_docx P f outp st = (Inl (UnicodeDecodeError m), st)"
  using convert_read_fails[of P f st "UnicodeDecodeError m" outp]
  by (simp add: except_clause_simps)

theorem undecodable_input_propagates_witness:
  "read_text fs_platform (lit ''B/c.MD'') (world st0) =
     Inl (UnicodeDecodeError (lit ''invalid start byte'')) \<and>
   convert_md_to_docx fs_platform (lit ''B/c.MD'') None st0 =
     (Inl (UnicodeDecodeError (lit ''invalid start byte'')), st0)"
proof -
  have r: "read_text fs_platform (lit ''B/c.MD'') (world st0) =
             Inl (UnicodeDecodeError (lit ''invalid start byte''))"
    unfolding fs_world by (rule fs_read_c)
  show ?thesis
    using r undecodable_input_propagates[where P = fs_platform and f = "lit ''B/c.MD''"
        and st = st0 and m = "lit ''invalid start byte''" and outp = None, THEN mp, OF r]
    by (intro conjI)
qed

text \<open>
  Claim C8: with no output path the output file is the input path with its extension (as
  \<open>os.path.splitext\<close> splits it) replaced by \<open>.docx\<close>, so that \<open>stem.ext\<close> gives
  \<open>stem.docx\<close>; with an output path that is an existing directory it is that directory
  joined with the input's base name, extension replaced; otherwise it is the output path
  itself. That is the path the built document is saved to.
\<close>

theorem output_path_resolution:
  "output_file_of P w input_file None = fst (splitext input_file) @ lit ''.docx'' \<and>
   (isdir P path w \<longrightarrow>
      output_file_of P w input_file (Some path) =
        join path (fst (splitext (basename input_file)) @ lit ''.docx'')) \<and>
   (\<not> isdir P path w \<longrightarrow> output_file_of P w input_file (Some path) = path) \<and>
   (46 \<notin> set ext \<and> 47 \<notin> set ext \<and> list_ex (\<lambda>c. c \<noteq> 46) (basename stem) \<longrightarrow>
      output_file_of P w (stem @ [46] @ ext) None = stem @ lit ''.docx'') \<and>
   (read_text P input_file (world st) = Inr md \<and> markdown_soup P md = Inr soup \<and>
    build_document P soup = Inr doc \<and>
    ensure_output_dir P (output_file_of P (world st) input_file output_path) (world st) = (None, w1) \<longrightarrow>
      world (snd (convert_md_to_docx P input_file output_path st)) =
        snd (save P doc (output_file_of P (world st) input_file output_path) w1))"
proof -
  have 1: "output_file_of P w input_file None = fst (splitext input_file) @ lit ''.docx''"
    by (simp add: output_file_of_def)
  have 2: "isdir P path w \<longrightarrow>
      output_file_of P w input_file (Some path) =
        join path (fst (splitext (basename input_file)) @ lit ''.docx'')"
    by (simp add: output_file_of_def)
  have 3: "\<not> isdir P path w \<longrightarrow> output_file_of P w input_file (Some path) = path"
    by (simp add: output_file_of_def)
  have 4: "46 \<notin> set ext \<and> 47 \<notin> set ext \<and> list_ex (\<lambda>c. c \<noteq> 46) (basename stem) \<longrightarrow>
      output_file_of P w (stem @ [46] @ ext) None = stem @ lit ''.docx''"
    using splitext_ext[of ext stem] by (simp add: output_file_of_def)
  show ?thesis
    using 1 2 3 4 convert_saves_at[of P input_file st md soup doc output_path w1] by blast
qed

theorem output_path_resolution_witness:
  "output_file_of fs_platform fs0 (lit ''note.md'') None = lit ''note.docx'' \<and>
   isdir fs_platform (lit ''O'') fs0 \<and>
   output_file_of fs_platform fs0 (lit ''D/a.md'') (Some (lit ''O'')) = lit ''O/a.docx'' \<and>
   \<not> isdir fs_platform (lit ''N/out.docx'') fs0 \<and>
   output_file_of fs_platform fs0 (lit ''D/a.md'') (Some (lit ''N/out.docx'')) = lit ''N/out.docx'' \<and>
   output_file_of fs_platform fs0 (lit ''docs/note'' @ [46] @ lit ''md'') None = lit ''docs/note.docx'' \<and>
   world (snd (convert_md_to_docx fs_platform (lit ''D/a.md'') None st0)) =
     (lit ''D/a.docx'', File (lit ''Some text'')) # fs0"
proof -
  have a: "fst (splitext (lit ''note.md'')) @ lit ''.docx'' = lit ''note.docx''"
    unfolding splitext_examples by (simp add: lit_def)
  have b: "join (lit ''O'') (fst (splitext (basename (lit ''D/a.md''))) @ lit ''.docx'') = lit ''O/a.docx''"
    unfolding basename_example splitext_examples by (simp add: join_def lit_def)
  have c: "46 \<notin> set (lit ''md'') \<and> 47 \<notin> set (lit ''md'') \<and>
           list_ex (\<lambda>c. c \<noteq> 46) (basename (lit ''docs/note''))"
    by (simp add: lit_def basename_def rfind_def)
  have d: "lit ''docs/note'' @ lit ''.docx'' = lit ''docs/note.docx''"
    by (simp add: lit_def)
  have r: "read_text fs_platform (lit ''D/a.md'') (world st0) = Inr (lit ''Some  text'')"
    unfolding fs_world by (rule fs_read_a)
  have e: "ensure_output_dir fs_platform
             (output_file_of fs_platform (world st0) (lit ''D/a.md'') None) (world st0) = (None, fs0)"
    unfolding fs_world output_file_a by (rule ensure_a)
  have s: "snd (save fs_platform [(add_paragraph (lit ''Some text''))\<lparr>style := Some (lit ''Normal'')\<rparr>]
             (output_file_of fs_platform (world st0) (lit ''D/a.md'') None) fs0) =
           (lit ''D/a.docx'', File (lit ''Some text'')) # fs0"
    unfolding fs_world output_file_a save_a by simp
  note res = output_path_resolution[where P = fs_platform and w = fs0]
  have 1: "output_file_of fs_platform fs0 (lit ''note.md'') None = lit ''note.docx''"
    using res[where input_file = "lit ''note.md''", THEN conjunct1] unfolding a .
  have 2: "output_file_of fs_platform fs0 (lit ''D/a.md'') (Some (lit ''O'')) = lit ''O/a.docx''"
    using res[where input_file = "lit ''D/a.md''" and path = "lit ''O''",
        THEN conjunct2, THEN conjunct1, THEN mp, OF fs_isdir_simps(3)]
    unfolding b .
  have 3: "output_file_of fs_platform fs0 (lit ''D/a.md'') (Some (lit ''N/out.docx'')) =
             lit ''N/out.docx''"
    using res[where input_file = "lit ''D/a.md''" and path = "lit ''N/out.docx''",
        THEN conjunct2, THEN conjunct2, THEN conjunct1, THEN mp, OF fs_isdir_simps(5)] .
  have 4: "output_file_of fs_platform fs0 (lit ''docs/note'' @ [46] @ lit ''md'') None =
             lit ''docs/note.docx''"
    using res[where stem = "lit ''docs/note''" and ext = "lit ''md''",
        THEN conjunct2, THEN conjunct2, THEN conjunct2, THEN conjunct1, THEN mp, OF c]
    unfolding d .
  have 5: "world (snd (convert_md_to_docx fs_platform (lit ''D/a.md'') None st0)) =
     (lit ''D/a.docx'', File (lit ''Some text'')) # fs0"
    using output_path_resolution[where P = fs_platform and st = st0
        and input_file = "lit ''D/a.md''" and output_path = None and md = "lit ''Some  text''"
        and soup = "[Tag (lit ''p'') [Text (lit ''Some  text'')]]" and ?w1.0 = fs0,
        THEN conjunct2, THEN conjunct2, THEN conjunct2, THEN conjunct2, THEN mp,
        OF conjI[OF r conjI[OF fs_soup conjI[OF build_a e]]]]
    unfolding s .
  show ?thesis using 1 2 3 4 5 fs_isdir_simps(3,5) by simp
qed

section \<open>The claims on the Batch Converter\<close>

text \<open>
  Claim C9, at a directory whose first \<open>.md\<close> file is not UTF-8: the
  \<open>UnicodeDecodeError\<close> leaves \<open>convert_md_to_docx\<close> and, nothing catching it, the loop
  and \<open>convert_directory\<close>: the rest of the listing is never converted and no summary
  is printed, where the claim says that a file that fails never aborts the batch and
  that the summary is emitted.
\<close>

theorem undecodable_file_aborts_batch:
  "isdir P d (world st) \<and> prepare_output_dir P outp (world st) = (None, w1) \<and>
   listdir P d w1 = Inr (filename # rest) \<and> is_md filename \<and>
   read_text P (join d filename) w1 = Inl (UnicodeDecodeError m) \<longrightarrow>
   convert_directory P d outp st = (Some (UnicodeDecodeError m), st\<lparr>world := w1\<rparr>)"
proof
  assume a: "isdir P d (world st) \<and> prepare_output_dir P outp (world st) = (None, w1) \<and>
   listdir P d w1 = Inr (filename # rest) \<and> is_md filename \<and>
   read_text P (join d filename) w1 = Inl (UnicodeDecodeError m)"
  then have "read_text P (join d filename) (world (st\<lparr>world := w1\<rparr>)) = Inl (UnicodeDecodeError m)"
    by simp
  then have "convert_md_to_docx P (join d filename) outp (st\<lparr>world := w1\<rparr>) =
               (Inl (UnicodeDecodeError m), st\<lparr>world := w1\<rparr>)"
    using convert_read_fails[of P "join d filename" "st\<lparr>world := w1\<rparr>" "UnicodeDecodeError m" outp]
    by (simp add: except_clause_simps)
  then have "convert_files P d outp (filename # rest) (0, 0) (st\<lparr>world := w1\<rparr>) =
               (Inl (UnicodeDecodeError m), st\<lparr>world := w1\<rparr>)"
    using a by (simp add: Let_def)
  then show "convert_directory P d outp st = (Some (UnicodeDecodeError m), st\<lparr>world := w1\<rparr>)"
    using a by (simp add: convert_directory_def)
qed

theorem undecodable_file_aborts_batch_witness:
  "listdir fs_platform (lit ''B'') fs0 = Inr [lit ''c.MD'', lit ''e.md''] \<and>
   read_text fs_platform (lit ''B/e.md'') fs0 = Inr (lit ''late'') \<and>
   convert_directory fs_platform (lit ''B'') None st0 =
     (Some (UnicodeDecodeError (lit ''invalid start byte'')), st0) \<and>
   stdout st0 = []"
proof -
  have i: "isdir fs_platform (lit ''B'') (world st0)"
    unfolding fs_world by (rule fs_isdir_simps)
  have p: "prepare_output_dir fs_platform None (world st0) = (None, fs0)"
    by (simp add: prepare_output_dir_def fs_world)
  have r: "read_text fs_platform (join (lit ''B'') (lit ''c.MD'')) fs0 =
             Inl (UnicodeDecodeError (lit ''invalid start byte''))"
    unfolding join_examples by (rule fs_read_c)
  have e: "read_text fs_platform (lit ''B/e.md'') fs0 = Inr (lit ''late'')"
    by (simp add: fs_defs)
  have st: "st0\<lparr>world := fs0\<rparr> = st0" "stdout st0 = []" by (simp_all add: st0_def)
  have "convert_directory fs_platform (lit ''B'') None st0 =
     (Some (UnicodeDecodeError (lit ''invalid start byte'')), st0)"
    using undecodable_file_aborts_batch[where P = fs_platform and d = "lit ''B''" and st = st0
        and outp = None and ?w1.0 = fs0 and filename = "lit ''c.MD''" and rest = "[lit ''e.md'']"
        and m = "lit ''invalid start byte''", THEN mp,
        OF conjI[OF i conjI[OF p conjI[OF fs_listdir_B conjI[OF is_md_examples(3) r]]]]]
    unfolding st .
  then show ?thesis using fs_listdir_B e st(2) by (intro conjI)
qed



end
